theory Spec2Isabelle
  imports Complex_Main "HOL-Library.Sublist"
begin

section \<open>Data model of \<^verbatim>\<open>dashboard/backend/data_loader.py\<close>\<close>

text \<open>
  A pandas float64 cell is either a number or NaN.  Numbers are modelled as reals and NaN
  as \<open>None\<close>; infinities are not modelled.  A comparison with NaN on either side is
  false, as in pandas.  The remainder and the subtraction of the pitch conversion round
  their results to float64 (\<open>float64_round\<close> below); the products and the quotient of the
  energy column are taken exact.
\<close>

type_synonym cell = "real option"

definition cell_ge :: "cell \<Rightarrow> real \<Rightarrow> bool" where
  "cell_ge c b = (case c of None \<Rightarrow> False | Some x \<Rightarrow> x \<ge> b)"

definition cell_le :: "cell \<Rightarrow> real \<Rightarrow> bool" where
  "cell_le c b = (case c of None \<Rightarrow> False | Some x \<Rightarrow> x \<le> b)"

definition cell_gt :: "cell \<Rightarrow> real \<Rightarrow> bool" where
  "cell_gt c b = (case c of None \<Rightarrow> False | Some x \<Rightarrow> x > b)"

text \<open>
  A row of the SCADA frame, with the columns that \<^verbatim>\<open>_clean_scada\<close> names.
  \<open>Date_time\<close> is the parsed, zone-stripped timestamp in seconds.
\<close>

record scada_row =
  Date_time :: int
  Wind_turbine_name :: string
  Ba_avg :: cell
  P_avg :: cell
  Ws_avg :: cell
  Va_avg :: cell
  Ot_avg :: cell
  Ya_avg :: cell
  Wa_avg :: cell

type_synonym scada_frame = "scada_row list"

subsection \<open>Archive extraction (lines 31-35)\<close>

text \<open>
  A path is the list of its components.  The file system maps the paths that exist to
  what is there: a directory, a regular file with its bytes, or a file whose bytes are a
  zip archive with the given members (relative path and bytes).
\<close>

type_synonym path = "string list"

datatype node = Directory | Regular_file string | Zip_archive "(path \<times> string) list"

type_synonym filesystem = "path \<rightharpoonup> node"

datatype error = ValueError | FileNotFoundError | IsADirectoryError | BadZipFile

text \<open>
  \<^verbatim>\<open>Path.suffix\<close> is the part of the final component from its last dot, if that dot is
  neither the first nor the last character; \<^verbatim>\<open>Path.with_suffix\<close> replaces it and raises
  \<^verbatim>\<open>ValueError\<close> on an empty name.
\<close>

definition path_suffix :: "string \<Rightarrow> string" where
  "path_suffix name =
     (let ext = takeWhile (\<lambda>c. c \<noteq> CHR ''.'') (rev name);
          i = length name - length ext - 1
      in if CHR ''.'' \<in> set name \<and> 0 < i \<and> ext \<noteq> [] then drop i name else [])"

definition with_suffix :: "path \<Rightarrow> string \<Rightarrow> error + path" where
  "with_suffix p sfx =
     (if p = [] \<or> last p = [] then Inl ValueError
      else Inr (butlast p @ [take (length (last p) - length (path_suffix (last p))) (last p) @ sfx]))"

text \<open>
  \<^verbatim>\<open>ZipFile(file)\<close> opens an archive for reading; \<^verbatim>\<open>extractall(path)\<close> writes every
  member below \<^verbatim>\<open>path\<close>, creating the directories that are missing.  Failures of the
  operating system while writing are not modelled.
\<close>

definition ZipFile :: "filesystem \<Rightarrow> path \<Rightarrow> error + (path \<times> string) list" where
  "ZipFile fs archive =
     (case fs archive of
        None \<Rightarrow> Inl FileNotFoundError
      | Some Directory \<Rightarrow> Inl IsADirectoryError
      | Some (Regular_file bytes) \<Rightarrow> Inl BadZipFile
      | Some (Zip_archive members) \<Rightarrow> Inr members)"

definition makedirs :: "filesystem \<Rightarrow> path \<Rightarrow> filesystem" where
  "makedirs fs dir =
     fold (\<lambda>p fs'. case fs' p of None \<Rightarrow> fs'(p \<mapsto> Directory) | Some n \<Rightarrow> fs')
       (tl (prefixes dir)) fs"

definition extract_member :: "path \<Rightarrow> path \<times> string \<Rightarrow> filesystem \<Rightarrow> filesystem" where
  "extract_member dir m fs =
     (let target = dir @ fst m in (makedirs fs (butlast target))(target \<mapsto> Regular_file (snd m)))"

definition extractall :: "(path \<times> string) list \<Rightarrow> filesystem \<Rightarrow> path \<Rightarrow> filesystem" where
  "extractall members fs dir = fold (extract_member dir) members fs"

text \<open>\<^verbatim>\<open>_extract_data\<close>: extract the zip archive if the folder does not exist yet.\<close>

definition extract_data :: "filesystem \<Rightarrow> path \<Rightarrow> error + filesystem" where
  "extract_data fs p =
     (if fs p = None then
        (case with_suffix p ''.zip'' of
           Inl e \<Rightarrow> Inl e
         | Inr archive \<Rightarrow>
             (case ZipFile fs archive of
                Inl e \<Rightarrow> Inl e
              | Inr zf \<Rightarrow> Inr (extractall zf fs p)))
      else Inr fs)"

subsection \<open>Deduplication (line 44)\<close>

text \<open>
  \<^verbatim>\<open>scada_df.drop_duplicates(subset=["Date_time", "Wind_turbine_name"], keep="first")\<close>:
  rows are visited in input order; a row whose key has been seen before is dropped.
\<close>

definition subset_key :: "scada_row \<Rightarrow> int \<times> string" where
  "subset_key r = (Date_time r, Wind_turbine_name r)"

fun keep_first :: "('a \<Rightarrow> 'k) \<Rightarrow> 'k list \<Rightarrow> 'a list \<Rightarrow> 'a list" where
  "keep_first key seen [] = []"
| "keep_first key seen (r # rs) =
     (if key r \<in> set seen then keep_first key seen rs
      else r # keep_first key (key r # seen) rs)"

definition drop_duplicates :: "scada_frame \<Rightarrow> scada_frame" where
  "drop_duplicates df = keep_first subset_key [] df"

subsection \<open>Range filter on ambient temperature (lines 46-47)\<close>

text \<open>
  \<^verbatim>\<open>scada_df[(scada_df["Ot_avg"] >= -15.0) & (scada_df["Ot_avg"] <= 45.0)]\<close>:
  a boolean mask is computed row by row, and indexing with it selects the rows whose
  mask entry is true.
\<close>

definition boolean_index :: "'a list \<Rightarrow> bool list \<Rightarrow> 'a list" where
  "boolean_index df ix = map fst (filter snd (zip df ix))"

definition remove_extreme_temperatures :: "scada_frame \<Rightarrow> scada_frame" where
  "remove_extreme_temperatures df =
     boolean_index df (map (\<lambda>r. cell_ge (Ot_avg r) (- 15) \<and> cell_le (Ot_avg r) 45) df)"

subsection \<open>Unresponsive sensors (lines 49-57)\<close>

text \<open>
  Modelled from the spec: \<^verbatim>\<open>openoa.utils.filters.unresponsive_flag\<close> is not among
  the source files.  Section 4.4 of the specification: a position is flagged if the
  signal value is constant (bit-identical) across at least \<open>w\<close> consecutive samples
  ending at that position; once flagged, all positions within that run are marked; only
  full windows count.  \<open>constant_window xs w e\<close> says that the \<open>w\<close> samples ending at
  position \<open>e\<close> exist and are equal; position \<open>j\<close> is marked when one of the windows
  ending at \<open>j, \<dots>, j + w - 1\<close> is constant.
\<close>

definition constant_window :: "'a list \<Rightarrow> nat \<Rightarrow> nat \<Rightarrow> bool" where
  "constant_window xs w e =
     (w \<le> Suc e \<and> e < length xs \<and> list_all (\<lambda>k. xs ! (e - k) = xs ! e) [0..<w])"

definition unresponsive_flag :: "'a list \<Rightarrow> nat \<Rightarrow> bool list" where
  "unresponsive_flag xs w =
     map (\<lambda>j. list_ex (\<lambda>e. constant_window xs w e) [j..<j + w]) [0..<length xs]"

text \<open>
  \<^verbatim>\<open>Series.unique()\<close>: the distinct values in order of first appearance.
\<close>

definition unique :: "'a list \<Rightarrow> 'a list" where
  "unique xs = keep_first (\<lambda>x. x) [] xs"

text \<open>
  Rows are addressed by index label.  The labels of a frame are unique, so the position
  of a row in the frame is used as its label.  \<open>turbine_labels\<close> are the labels of the
  rows selected by the mask \<^verbatim>\<open>ix_turbine\<close>; \<open>flagged_labels\<close> are those of them whose
  flag is set; \<open>loc_assign\<close> is the assignment \<^verbatim>\<open>scada_df.loc[labels, cols] = np.nan\<close>.
\<close>

definition turbine_labels :: "string \<Rightarrow> scada_frame \<Rightarrow> nat list" where
  "turbine_labels t_id df = filter (\<lambda>i. Wind_turbine_name (df ! i) = t_id) [0..<length df]"

definition flagged_labels :: "nat list \<Rightarrow> bool list \<Rightarrow> nat list" where
  "flagged_labels labels ix_flag = map fst (filter snd (zip labels ix_flag))"

definition loc_assign :: "nat list \<Rightarrow> (scada_row \<Rightarrow> scada_row) \<Rightarrow> scada_frame \<Rightarrow> scada_frame" where
  "loc_assign labels f df = map (\<lambda>i. if i \<in> set labels then f (df ! i) else df ! i) [0..<length df]"

text \<open>
  \<^verbatim>\<open>sensor_cols = ["Ba_avg", "P_avg", "Ws_avg", "Va_avg", "Ot_avg", "Ya_avg", "Wa_avg"]\<close>
\<close>

definition nan_sensor_cols :: "scada_row \<Rightarrow> scada_row" where
  "nan_sensor_cols r = r\<lparr>Ba_avg := None, P_avg := None, Ws_avg := None, Va_avg := None,
     Ot_avg := None, Ya_avg := None, Wa_avg := None\<rparr>"

definition nan_Ot_avg :: "scada_row \<Rightarrow> scada_row" where
  "nan_Ot_avg r = r\<lparr>Ot_avg := None\<rparr>"

text \<open>The body of the loop over \<^verbatim>\<open>turbine_ids\<close>, and the loop.\<close>

definition flag_turbine :: "string \<Rightarrow> scada_frame \<Rightarrow> scada_frame" where
  "flag_turbine t_id df =
     (let ix_turbine = turbine_labels t_id df;
          ix_flag = unresponsive_flag (map (\<lambda>i. Va_avg (df ! i)) ix_turbine) 3;
          df1 = loc_assign (flagged_labels ix_turbine ix_flag) nan_sensor_cols df;
          ix_flag' = unresponsive_flag (map (\<lambda>i. Ot_avg (df1 ! i)) ix_turbine) 20
      in loc_assign (flagged_labels ix_turbine ix_flag') nan_Ot_avg df1)"

definition flag_unresponsive_sensors :: "scada_frame \<Rightarrow> scada_frame" where
  "flag_unresponsive_sensors df = fold flag_turbine (unique (map Wind_turbine_name df)) df"

text \<open>
  The flags that one pass of the loop body computes for a turbine: \<open>va_flags\<close> from
  the vane angle of the frame, \<open>ot_flags\<close> from the ambient temperature after the cells
  marked by \<open>va_flags\<close> have been set to NaN.
\<close>

definition va_flags :: "string \<Rightarrow> scada_frame \<Rightarrow> bool list" where
  "va_flags t_id df = unresponsive_flag (map (\<lambda>i. Va_avg (df ! i)) (turbine_labels t_id df)) 3"

definition ot_flags :: "string \<Rightarrow> scada_frame \<Rightarrow> bool list" where
  "ot_flags t_id df =
     unresponsive_flag
       (map (\<lambda>(i, f). if f then None else Ot_avg (df ! i))
          (zip (turbine_labels t_id df) (va_flags t_id df))) 20"

subsection \<open>Pitch angle to [-180, 180] (lines 59-62)\<close>

text \<open>
  Rounding of a real to the nearest float64, ties to even: the unit in the last place is
  \<open>2\<close> to the power of the exponent of the value (at least \<open>-1022\<close>, below which the
  values are subnormal) minus \<open>52\<close>.  Overflow is not modelled; the operations below never
  produce a magnitude above \<open>360\<close>.  \<open>is_float64\<close> holds of the finite float64 values: an
  integer of magnitude below \<open>2^53\<close> times a power of two within the exponent range.
\<close>

definition round_half_even :: "real \<Rightarrow> int" where
  "round_half_even y =
     (let n = \<lfloor>y\<rfloor>; d = y - of_int n
      in if d < 1 / 2 then n else if 1 / 2 < d then n + 1 else if even n then n else n + 1)"

definition float64_round :: "real \<Rightarrow> real" where
  "float64_round x =
     (if x = 0 then 0
      else let e = max \<lfloor>log 2 \<bar>x\<bar>\<rfloor> (- 1022); ulp = 2 powi (e - 52)
           in ulp * of_int (round_half_even (x / ulp)))"

definition is_float64 :: "real \<Rightarrow> bool" where
  "is_float64 x = (\<exists>m e :: int. x = of_int m * 2 powi e \<and> \<bar>m\<bar> < 2 ^ 53 \<and> - 1074 \<le> e \<and> e \<le> 971)"

text \<open>
  \<^verbatim>\<open>%\<close> on a float64 column is numpy's \<^verbatim>\<open>remainder\<close>: the C function \<^verbatim>\<open>fmod\<close>, which
  is exact and has the sign of the dividend, followed by the addition of the divisor when
  the result is not zero and its sign differs from the divisor's; that addition rounds.
  NaN stays NaN.
\<close>

definition fmod :: "real \<Rightarrow> real \<Rightarrow> real" where
  "fmod x m = x - m * of_int (if 0 \<le> x / m then \<lfloor>x / m\<rfloor> else \<lceil>x / m\<rceil>)"

definition np_mod :: "real \<Rightarrow> real \<Rightarrow> real" where
  "np_mod x m =
     (let r = fmod x m
      in if r \<noteq> 0 then (if (m < 0) \<noteq> (r < 0) then float64_round (r + m) else r) else 0)"

definition cell_mod :: "cell \<Rightarrow> real \<Rightarrow> cell" where
  "cell_mod c m = map_option (\<lambda>x. np_mod x m) c"

definition cell_sub :: "cell \<Rightarrow> real \<Rightarrow> cell" where
  "cell_sub c b = map_option (\<lambda>x. float64_round (x - b)) c"

definition convert_pitch :: "scada_frame \<Rightarrow> scada_frame" where
  "convert_pitch df =
     (let df1 = map (\<lambda>r. r\<lparr>Ba_avg := cell_mod (Ba_avg r) 360\<rparr>) df;
          ix_gt_180 = map (\<lambda>r. cell_gt (Ba_avg r) 180) df1
      in map (\<lambda>(r, gt). if gt then r\<lparr>Ba_avg := cell_sub (Ba_avg r) 360\<rparr> else r)
           (zip df1 ix_gt_180))"

text \<open>The effect of the three statements on one cell of the pitch column.\<close>

definition signed_angle :: "cell \<Rightarrow> cell" where
  "signed_angle c = (if cell_gt (cell_mod c 360) 180 then cell_sub (cell_mod c 360) 360 else cell_mod c 360)"

subsection \<open>Energy production (lines 64-65)\<close>

definition cell_mul :: "cell \<Rightarrow> real \<Rightarrow> cell" where
  "cell_mul c b = map_option (\<lambda>x. x * b) c"

definition cell_div :: "cell \<Rightarrow> real \<Rightarrow> cell" where
  "cell_div c b = map_option (\<lambda>x. x / b) c"

text \<open>
  Modelled from the spec: \<^verbatim>\<open>openoa.utils.unit_conversion.convert_power_to_energy\<close> is
  not among the source files.  Section 4.6 of the specification: the interval's energy
  is power times the interval's duration in consistent units (kW over a 10-minute
  interval gives kWh).  The sampling period is given in minutes; \<^verbatim>\<open>"10min"\<close> is 10.
\<close>

definition convert_power_to_energy :: "cell \<Rightarrow> real \<Rightarrow> cell" where
  "convert_power_to_energy power_col sample_rate_min = cell_mul power_col (sample_rate_min / 60)"

definition scada_freq :: real where
  "scada_freq = 10"

record scada_clean_row = scada_row +
  energy_kwh :: cell

definition energy_production :: "scada_frame \<Rightarrow> scada_clean_row list" where
  "energy_production df =
     map (\<lambda>r. scada_row.extend r
        \<lparr>energy_kwh = cell_div (convert_power_to_energy (cell_mul (P_avg r) 1000) scada_freq) 1000\<rparr>)
       df"

subsection \<open>\<^verbatim>\<open>_clean_scada\<close>\<close>

definition clean_scada :: "scada_frame \<Rightarrow> scada_clean_row list" where
  "clean_scada scada_df =
     energy_production (convert_pitch (flag_unresponsive_sensors
       (remove_extreme_temperatures (drop_duplicates scada_df))))"

subsection \<open>Reanalysis products (lines 90-105)\<close>

text \<open>
  A row of a reanalysis file: the parsed timestamp in seconds and the two horizontal wind
  components (\<^verbatim>\<open>u_50\<close>, \<^verbatim>\<open>v_50\<close> for MERRA2; \<^verbatim>\<open>u_100\<close>, \<^verbatim>\<open>v_100\<close> for ERA5).  The
  loader adds the column \<^verbatim>\<open>winddirection_deg\<close>.
\<close>

record reanalysis_row =
  datetime :: int
  u_wind :: cell
  v_wind :: cell

record reanalysis_out_row = reanalysis_row +
  winddirection_deg :: cell

text \<open>
  \<^verbatim>\<open>openoa.utils.met_data_processing.compute_wind_direction\<close> is not among the source
  files.  Its formula on two numbers is the parameter \<open>bearing\<close>; a NaN component gives
  NaN.
\<close>

definition compute_wind_direction :: "(real \<Rightarrow> real \<Rightarrow> real) \<Rightarrow> cell \<Rightarrow> cell \<Rightarrow> cell" where
  "compute_wind_direction bearing u v =
     (case u of None \<Rightarrow> None
      | Some a \<Rightarrow> (case v of None \<Rightarrow> None | Some b \<Rightarrow> Some (bearing a b)))"

definition add_winddirection :: "(real \<Rightarrow> real \<Rightarrow> real) \<Rightarrow> reanalysis_row \<Rightarrow> reanalysis_out_row" where
  "add_winddirection bearing r =
     reanalysis_row.extend r
       \<lparr>winddirection_deg = compute_wind_direction bearing (u_wind r) (v_wind r)\<rparr>"

text \<open>
  MERRA2 (lines 91-94): the timestamps are parsed and the wind direction is added; the
  rows are otherwise taken as they are.
\<close>

definition load_merra2 :: "(real \<Rightarrow> real \<Rightarrow> real) \<Rightarrow> reanalysis_row list \<Rightarrow> reanalysis_out_row list" where
  "load_merra2 bearing re_merra2 = map (add_winddirection bearing) re_merra2"

text \<open>
  \<^verbatim>\<open>DataFrame.asfreq(freq)\<close> on a frame indexed by timestamps.  An empty frame is
  returned as it is.  Otherwise the frame is reindexed on
  \<^verbatim>\<open>date_range(index.min(), index.max(), freq)\<close>: an index with a duplicate timestamp
  raises \<^verbatim>\<open>ValueError\<close> (cannot reindex on an axis with duplicate labels); a timestamp
  of the new index that has no row gets a row of NaN (\<open>None\<close> here); a row whose
  timestamp is not in the new index is left out.
\<close>

definition date_range :: "int \<Rightarrow> int \<Rightarrow> int \<Rightarrow> int list" where
  "date_range start stop freq = map (\<lambda>k. start + freq * int k) [0..<nat ((stop - start) div freq) + 1]"

definition asfreq :: "int \<Rightarrow> (int \<times> 'a) list \<Rightarrow> error + (int \<times> 'a option) list" where
  "asfreq freq df =
     (if df = [] then Inr []
      else let dti = date_range (Min (set (map fst df))) (Max (set (map fst df))) freq
           in if \<not> distinct (map fst df) then Inl ValueError
              else Inr (map (\<lambda>t. (t, map_of df t)) dti))"

text \<open>
  ERA5 (lines 97-105): the frame is indexed by its timestamps and regularised to one row
  per hour; the column \<^verbatim>\<open>datetime\<close> is then set from the index, and the wind direction
  is added.
\<close>

definition load_era5 :: "(real \<Rightarrow> real \<Rightarrow> real) \<Rightarrow> reanalysis_row list \<Rightarrow> error + reanalysis_out_row list" where
  "load_era5 bearing re_era5 =
     (case asfreq 3600 (map (\<lambda>r. (datetime r, r)) re_era5) of
        Inl e \<Rightarrow> Inl e
      | Inr df \<Rightarrow>
          Inr (map (\<lambda>(t, row). add_winddirection bearing
                 (case row of
                    None \<Rightarrow> \<lparr>datetime = t, u_wind = None, v_wind = None\<rparr>
                  | Some r \<Rightarrow> r\<lparr>datetime := t\<rparr>)) df))"

section \<open>Deduplication\<close>

lemma keep_first_keys_notin:
  "r \<in> set (keep_first key seen rs) \<Longrightarrow> key r \<notin> set seen \<and> r \<in> set rs"
proof (induction rs arbitrary: seen)
  case Nil
  then show ?case by simp
next
  case (Cons a rs)
  show ?case
  proof (cases "key a \<in> set seen")
    case True
    with Cons.prems have "r \<in> set (keep_first key seen rs)" by simp
    from Cons.IH [OF this] show ?thesis by simp
  next
    case False
    with Cons.prems have "r = a \<or> r \<in> set (keep_first key (key a # seen) rs)" by simp
    then show ?thesis
    proof
      assume "r = a"
      with False show ?thesis by simp
    next
      assume "r \<in> set (keep_first key (key a # seen) rs)"
      from Cons.IH [OF this] show ?thesis by simp
    qed
  qed
qed

lemma keep_first_distinct: "distinct (map key (keep_first key seen rs))"
proof (induction rs arbitrary: seen)
  case Nil
  show ?case by simp
next
  case (Cons r rs)
  show ?case
  proof (cases "key r \<in> set seen")
    case True
    with Cons show ?thesis by simp
  next
    case False
    have "key r \<notin> key ` set (keep_first key (key r # seen) rs)"
    proof
      assume "key r \<in> key ` set (keep_first key (key r # seen) rs)"
      then obtain s where s: "s \<in> set (keep_first key (key r # seen) rs)" "key s = key r"
        by auto
      from keep_first_keys_notin [OF s(1)] s(2) show False by simp
    qed
    with False Cons show ?thesis by simp
  qed
qed

lemma keep_first_keys:
  "set (map key (keep_first key seen rs)) = set (map key rs) - set seen"
  by (induction rs arbitrary: seen) auto

lemma keep_first_find:
  "k \<notin> set seen \<Longrightarrow>
   find (\<lambda>s. key s = k) (keep_first key seen rs) = find (\<lambda>s. key s = k) rs"
  by (induction rs arbitrary: seen) auto

lemma keep_first_id:
  "distinct (map key rs) \<Longrightarrow> \<forall>r \<in> set rs. key r \<notin> set seen \<Longrightarrow> keep_first key seen rs = rs"
proof (induction rs arbitrary: seen)
  case Nil
  show ?case by simp
next
  case (Cons a rs)
  have d: "distinct (map key rs)" and n: "key a \<notin> key ` set rs"
    using Cons.prems(1) by simp_all
  have "\<forall>r \<in> set rs. key r \<notin> set (key a # seen)"
  proof
    fix r assume r: "r \<in> set rs"
    then have "key r \<in> key ` set rs" by (rule imageI)
    with n have "key r \<noteq> key a" by auto
    moreover from r Cons.prems(2) have "key r \<notin> set seen" by simp
    ultimately show "key r \<notin> set (key a # seen)" by simp
  qed
  from Cons.IH [OF d this] Cons.prems(2) show ?case by simp
qed

lemma keep_first_idem:
  "keep_first key seen (keep_first key seen rs) = keep_first key seen rs"
  by (rule keep_first_id) (auto simp: keep_first_distinct dest: keep_first_keys_notin)

lemma keep_first_subseq: "subseq (keep_first key seen rs) rs"
  by (induction rs arbitrary: seen) auto

text \<open>
  C6.  Deduplication on the key (timestamp, entity) keeps exactly one row per key of the
  input, namely the first row carrying that key, in input order; applying it twice is
  the same as applying it once; a frame without duplicate keys is returned unchanged.
  The function is total: there is no error case.
\<close>

theorem drop_duplicates_first_wins_idempotent:
  "distinct (map subset_key (drop_duplicates df)) \<and>
   set (map subset_key (drop_duplicates df)) = set (map subset_key df) \<and>
   (\<forall>k. find (\<lambda>s. subset_key s = k) (drop_duplicates df) = find (\<lambda>s. subset_key s = k) df) \<and>
   subseq (drop_duplicates df) df \<and>
   drop_duplicates (drop_duplicates df) = drop_duplicates df \<and>
   (distinct (map subset_key df) \<longrightarrow> drop_duplicates df = df)"
  unfolding drop_duplicates_def
  using keep_first_distinct [of subset_key "[]" df] keep_first_keys [of subset_key "[]" df]
    keep_first_subseq [of subset_key "[]" df] keep_first_idem [of subset_key "[]" df]
    keep_first_id [of subset_key df "[]"] keep_first_find [of _ "[]" subset_key df]
  by simp

theorem drop_duplicates_first_wins_idempotent_witness:
  "distinct (map subset_key
     [\<lparr>Date_time = 0, Wind_turbine_name = ''R80711'', Ba_avg = Some 1, P_avg = Some 2,
       Ws_avg = Some 3, Va_avg = Some 4, Ot_avg = Some 5, Ya_avg = Some 6, Wa_avg = Some 7\<rparr>,
      \<lparr>Date_time = 600, Wind_turbine_name = ''R80711'', Ba_avg = Some 1, P_avg = Some 2,
       Ws_avg = Some 3, Va_avg = Some 4, Ot_avg = Some 5, Ya_avg = Some 6, Wa_avg = Some 7\<rparr>]) \<and>
   drop_duplicates
     [\<lparr>Date_time = 0, Wind_turbine_name = ''R80711'', Ba_avg = Some 1, P_avg = Some 2,
       Ws_avg = Some 3, Va_avg = Some 4, Ot_avg = Some 5, Ya_avg = Some 6, Wa_avg = Some 7\<rparr>,
      \<lparr>Date_time = 600, Wind_turbine_name = ''R80711'', Ba_avg = Some 1, P_avg = Some 2,
       Ws_avg = Some 3, Va_avg = Some 4, Ot_avg = Some 5, Ya_avg = Some 6, Wa_avg = Some 7\<rparr>] =
     [\<lparr>Date_time = 0, Wind_turbine_name = ''R80711'', Ba_avg = Some 1, P_avg = Some 2,
       Ws_avg = Some 3, Va_avg = Some 4, Ot_avg = Some 5, Ya_avg = Some 6, Wa_avg = Some 7\<rparr>,
      \<lparr>Date_time = 600, Wind_turbine_name = ''R80711'', Ba_avg = Some 1, P_avg = Some 2,
       Ws_avg = Some 3, Va_avg = Some 4, Ot_avg = Some 5, Ya_avg = Some 6, Wa_avg = Some 7\<rparr>]"
  using drop_duplicates_first_wins_idempotent
    [of "[\<lparr>Date_time = 0, Wind_turbine_name = ''R80711'', Ba_avg = Some 1, P_avg = Some 2,
       Ws_avg = Some 3, Va_avg = Some 4, Ot_avg = Some 5, Ya_avg = Some 6, Wa_avg = Some 7\<rparr>,
      \<lparr>Date_time = 600, Wind_turbine_name = ''R80711'', Ba_avg = Some 1, P_avg = Some 2,
       Ws_avg = Some 3, Va_avg = Some 4, Ot_avg = Some 5, Ya_avg = Some 6, Wa_avg = Some 7\<rparr>]"]
  by (simp add: subset_key_def)

section \<open>Range filter\<close>

lemma boolean_index_map: "boolean_index df (map p df) = filter p df"
  unfolding boolean_index_def by (induction df) auto

lemma remove_extreme_temperatures_filter:
  "remove_extreme_temperatures df =
     filter (\<lambda>r. cell_ge (Ot_avg r) (- 15) \<and> cell_le (Ot_avg r) 45) df"
  unfolding remove_extreme_temperatures_def by (rule boolean_index_map)

text \<open>
  C1, as stated, fails: a row whose ambient temperature reads 50 is not kept with a
  missing temperature cell; the whole row is removed from the frame.
\<close>

theorem remove_extreme_temperatures_counterexample:
  "remove_extreme_temperatures
     [\<lparr>Date_time = 0, Wind_turbine_name = ''R80711'', Ba_avg = Some 1, P_avg = Some 2,
       Ws_avg = Some 3, Va_avg = Some 4, Ot_avg = Some 50, Ya_avg = Some 6, Wa_avg = Some 7\<rparr>] = [] \<and>
   remove_extreme_temperatures
     [\<lparr>Date_time = 0, Wind_turbine_name = ''R80711'', Ba_avg = Some 1, P_avg = Some 2,
       Ws_avg = Some 3, Va_avg = Some 4, Ot_avg = Some 50, Ya_avg = Some 6, Wa_avg = Some 7\<rparr>] \<noteq>
     [\<lparr>Date_time = 0, Wind_turbine_name = ''R80711'', Ba_avg = Some 1, P_avg = Some 2,
       Ws_avg = Some 3, Va_avg = Some 4, Ot_avg = None, Ya_avg = Some 6, Wa_avg = Some 7\<rparr>]"
  by (simp add: remove_extreme_temperatures_def boolean_index_def cell_ge_def cell_le_def)

text \<open>
  C1, amended.  The range filter removes from the frame every row whose ambient
  temperature reading lies outside the inclusive range [-15, 45], and keeps every row
  whose reading lies inside it, unchanged and in input order; no cell of a kept row is
  altered.  A row reading 50 is removed; a row reading 44.9 is kept unchanged.
\<close>

theorem remove_extreme_temperatures_drops_rows:
  "subseq (remove_extreme_temperatures df) df \<and>
   (Ot_avg r = Some x \<and> (x < - 15 \<or> 45 < x) \<longrightarrow>
      remove_extreme_temperatures (pre @ r # post) =
        remove_extreme_temperatures pre @ remove_extreme_temperatures post) \<and>
   (Ot_avg r = Some x \<and> - 15 \<le> x \<and> x \<le> 45 \<longrightarrow>
      remove_extreme_temperatures (pre @ r # post) =
        remove_extreme_temperatures pre @ r # remove_extreme_temperatures post)"
  by (auto simp: remove_extreme_temperatures_filter cell_ge_def cell_le_def)

theorem remove_extreme_temperatures_drops_rows_witness:
  "Ot_avg \<lparr>Date_time = 0, Wind_turbine_name = ''R80711'', Ba_avg = Some 1, P_avg = Some 2,
       Ws_avg = Some 3, Va_avg = Some 4, Ot_avg = Some 50, Ya_avg = Some 6, Wa_avg = Some 7\<rparr> = Some 50 \<and> (45::real) < 50 \<and>
   remove_extreme_temperatures
     ([\<lparr>Date_time = 600, Wind_turbine_name = ''R80711'', Ba_avg = Some 1, P_avg = Some 2,
       Ws_avg = Some 3, Va_avg = Some 4, Ot_avg = Some (449 / 10), Ya_avg = Some 6, Wa_avg = Some 7\<rparr>] @
      \<lparr>Date_time = 0, Wind_turbine_name = ''R80711'', Ba_avg = Some 1, P_avg = Some 2,
       Ws_avg = Some 3, Va_avg = Some 4, Ot_avg = Some 50, Ya_avg = Some 6, Wa_avg = Some 7\<rparr> #
      [\<lparr>Date_time = 600, Wind_turbine_name = ''R80711'', Ba_avg = Some 1, P_avg = Some 2,
       Ws_avg = Some 3, Va_avg = Some 4, Ot_avg = Some (449 / 10), Ya_avg = Some 6, Wa_avg = Some 7\<rparr>]) =
     [\<lparr>Date_time = 600, Wind_turbine_name = ''R80711'', Ba_avg = Some 1, P_avg = Some 2,
       Ws_avg = Some 3, Va_avg = Some 4, Ot_avg = Some (449 / 10), Ya_avg = Some 6, Wa_avg = Some 7\<rparr>,
      \<lparr>Date_time = 600, Wind_turbine_name = ''R80711'', Ba_avg = Some 1, P_avg = Some 2,
       Ws_avg = Some 3, Va_avg = Some 4, Ot_avg = Some (449 / 10), Ya_avg = Some 6, Wa_avg = Some 7\<rparr>] \<and>
   Ot_avg \<lparr>Date_time = 600, Wind_turbine_name = ''R80711'', Ba_avg = Some 1, P_avg = Some 2,
       Ws_avg = Some 3, Va_avg = Some 4, Ot_avg = Some (449 / 10), Ya_avg = Some 6, Wa_avg = Some 7\<rparr> = Some (449 / 10) \<and> - 15 \<le> (449 / 10 :: real) \<and> (449 / 10 :: real) \<le> 45 \<and>
   remove_extreme_temperatures
     ([\<lparr>Date_time = 0, Wind_turbine_name = ''R80711'', Ba_avg = Some 1, P_avg = Some 2,
       Ws_avg = Some 3, Va_avg = Some 4, Ot_avg = Some 50, Ya_avg = Some 6, Wa_avg = Some 7\<rparr>] @
      \<lparr>Date_time = 600, Wind_turbine_name = ''R80711'', Ba_avg = Some 1, P_avg = Some 2,
       Ws_avg = Some 3, Va_avg = Some 4, Ot_avg = Some (449 / 10), Ya_avg = Some 6, Wa_avg = Some 7\<rparr> #
      [\<lparr>Date_time = 0, Wind_turbine_name = ''R80711'', Ba_avg = Some 1, P_avg = Some 2,
       Ws_avg = Some 3, Va_avg = Some 4, Ot_avg = Some 50, Ya_avg = Some 6, Wa_avg = Some 7\<rparr>]) =
     [\<lparr>Date_time = 600, Wind_turbine_name = ''R80711'', Ba_avg = Some 1, P_avg = Some 2,
       Ws_avg = Some 3, Va_avg = Some 4, Ot_avg = Some (449 / 10), Ya_avg = Some 6, Wa_avg = Some 7\<rparr>]"
proof -
  have in_range: "remove_extreme_temperatures [\<lparr>Date_time = 600, Wind_turbine_name = ''R80711'', Ba_avg = Some 1, P_avg = Some 2,
       Ws_avg = Some 3, Va_avg = Some 4, Ot_avg = Some (449 / 10), Ya_avg = Some 6, Wa_avg = Some 7\<rparr>] =
      [\<lparr>Date_time = 600, Wind_turbine_name = ''R80711'', Ba_avg = Some 1, P_avg = Some 2,
       Ws_avg = Some 3, Va_avg = Some 4, Ot_avg = Some (449 / 10), Ya_avg = Some 6, Wa_avg = Some 7\<rparr>]"
    by (simp add: remove_extreme_temperatures_filter cell_ge_def cell_le_def)
  have out_of_range: "remove_extreme_temperatures [\<lparr>Date_time = 0, Wind_turbine_name = ''R80711'', Ba_avg = Some 1, P_avg = Some 2,
       Ws_avg = Some 3, Va_avg = Some 4, Ot_avg = Some 50, Ya_avg = Some 6, Wa_avg = Some 7\<rparr>] = []"
    by (simp add: remove_extreme_temperatures_filter cell_ge_def cell_le_def)
  show ?thesis
    using remove_extreme_temperatures_drops_rows
      [of "[]" "\<lparr>Date_time = 0, Wind_turbine_name = ''R80711'', Ba_avg = Some 1, P_avg = Some 2,
       Ws_avg = Some 3, Va_avg = Some 4, Ot_avg = Some 50, Ya_avg = Some 6, Wa_avg = Some 7\<rparr>" "50"
        "[\<lparr>Date_time = 600, Wind_turbine_name = ''R80711'', Ba_avg = Some 1, P_avg = Some 2,
       Ws_avg = Some 3, Va_avg = Some 4, Ot_avg = Some (449 / 10), Ya_avg = Some 6, Wa_avg = Some 7\<rparr>]"
        "[\<lparr>Date_time = 600, Wind_turbine_name = ''R80711'', Ba_avg = Some 1, P_avg = Some 2,
       Ws_avg = Some 3, Va_avg = Some 4, Ot_avg = Some (449 / 10), Ya_avg = Some 6, Wa_avg = Some 7\<rparr>]"]
      remove_extreme_temperatures_drops_rows
      [of "[]" "\<lparr>Date_time = 600, Wind_turbine_name = ''R80711'', Ba_avg = Some 1, P_avg = Some 2,
       Ws_avg = Some 3, Va_avg = Some 4, Ot_avg = Some (449 / 10), Ya_avg = Some 6, Wa_avg = Some 7\<rparr>" "449 / 10"
        "[\<lparr>Date_time = 0, Wind_turbine_name = ''R80711'', Ba_avg = Some 1, P_avg = Some 2,
       Ws_avg = Some 3, Va_avg = Some 4, Ot_avg = Some 50, Ya_avg = Some 6, Wa_avg = Some 7\<rparr>]"
        "[\<lparr>Date_time = 0, Wind_turbine_name = ''R80711'', Ba_avg = Some 1, P_avg = Some 2,
       Ws_avg = Some 3, Va_avg = Some 4, Ot_avg = Some 50, Ya_avg = Some 6, Wa_avg = Some 7\<rparr>]"]
      in_range out_of_range
    by simp
qed

text \<open>
  C10.  A row whose ambient temperature is missing (NaN) satisfies neither bound and is
  removed from the frame with all of its other fields.
\<close>

theorem remove_extreme_temperatures_drops_nan_row:
  "Ot_avg r = None \<Longrightarrow>
   remove_extreme_temperatures (pre @ r # post) =
     remove_extreme_temperatures pre @ remove_extreme_temperatures post"
  by (simp add: remove_extreme_temperatures_filter cell_ge_def)

theorem remove_extreme_temperatures_drops_nan_row_witness:
  "Ot_avg \<lparr>Date_time = 1200, Wind_turbine_name = ''R80711'', Ba_avg = Some 1, P_avg = Some 2,
       Ws_avg = Some 3, Va_avg = Some 4, Ot_avg = None, Ya_avg = Some 6, Wa_avg = Some 7\<rparr> = None \<and>
   remove_extreme_temperatures
     ([\<lparr>Date_time = 600, Wind_turbine_name = ''R80711'', Ba_avg = Some 1, P_avg = Some 2,
       Ws_avg = Some 3, Va_avg = Some 4, Ot_avg = Some (449 / 10), Ya_avg = Some 6, Wa_avg = Some 7\<rparr>] @
      \<lparr>Date_time = 1200, Wind_turbine_name = ''R80711'', Ba_avg = Some 1, P_avg = Some 2,
       Ws_avg = Some 3, Va_avg = Some 4, Ot_avg = None, Ya_avg = Some 6, Wa_avg = Some 7\<rparr> #
      [\<lparr>Date_time = 600, Wind_turbine_name = ''R80711'', Ba_avg = Some 1, P_avg = Some 2,
       Ws_avg = Some 3, Va_avg = Some 4, Ot_avg = Some (449 / 10), Ya_avg = Some 6, Wa_avg = Some 7\<rparr>]) =
     [\<lparr>Date_time = 600, Wind_turbine_name = ''R80711'', Ba_avg = Some 1, P_avg = Some 2,
       Ws_avg = Some 3, Va_avg = Some 4, Ot_avg = Some (449 / 10), Ya_avg = Some 6, Wa_avg = Some 7\<rparr>,
      \<lparr>Date_time = 600, Wind_turbine_name = ''R80711'', Ba_avg = Some 1, P_avg = Some 2,
       Ws_avg = Some 3, Va_avg = Some 4, Ot_avg = Some (449 / 10), Ya_avg = Some 6, Wa_avg = Some 7\<rparr>]"
proof -
  have in_range: "remove_extreme_temperatures [\<lparr>Date_time = 600, Wind_turbine_name = ''R80711'', Ba_avg = Some 1, P_avg = Some 2,
       Ws_avg = Some 3, Va_avg = Some 4, Ot_avg = Some (449 / 10), Ya_avg = Some 6, Wa_avg = Some 7\<rparr>] =
      [\<lparr>Date_time = 600, Wind_turbine_name = ''R80711'', Ba_avg = Some 1, P_avg = Some 2,
       Ws_avg = Some 3, Va_avg = Some 4, Ot_avg = Some (449 / 10), Ya_avg = Some 6, Wa_avg = Some 7\<rparr>]"
    by (simp add: remove_extreme_temperatures_filter cell_ge_def cell_le_def)
  show ?thesis
    using remove_extreme_temperatures_drops_nan_row
      [of "\<lparr>Date_time = 1200, Wind_turbine_name = ''R80711'', Ba_avg = Some 1, P_avg = Some 2,
       Ws_avg = Some 3, Va_avg = Some 4, Ot_avg = None, Ya_avg = Some 6, Wa_avg = Some 7\<rparr>"
        "[\<lparr>Date_time = 600, Wind_turbine_name = ''R80711'', Ba_avg = Some 1, P_avg = Some 2,
       Ws_avg = Some 3, Va_avg = Some 4, Ot_avg = Some (449 / 10), Ya_avg = Some 6, Wa_avg = Some 7\<rparr>]"
        "[\<lparr>Date_time = 600, Wind_turbine_name = ''R80711'', Ba_avg = Some 1, P_avg = Some 2,
       Ws_avg = Some 3, Va_avg = Some 4, Ot_avg = Some (449 / 10), Ya_avg = Some 6, Wa_avg = Some 7\<rparr>]"]
      in_range
    by simp
qed

section \<open>Rounding to float64\<close>

lemma exponent_bounds:
  assumes "x \<noteq> 0"
  shows "2 powi \<lfloor>log 2 \<bar>x\<bar>\<rfloor> \<le> \<bar>x\<bar> \<and> \<bar>x\<bar> < 2 powi (\<lfloor>log 2 \<bar>x\<bar>\<rfloor> + 1)"
proof -
  have pos: "0 < \<bar>x\<bar>" using assms by simp
  have "2 powr of_int \<lfloor>log 2 \<bar>x\<bar>\<rfloor> \<le> \<bar>x\<bar> \<and> \<bar>x\<bar> < 2 powr (of_int \<lfloor>log 2 \<bar>x\<bar>\<rfloor> + 1)"
    using floor_log_eq_powr_iff [OF pos, of 2 "\<lfloor>log 2 \<bar>x\<bar>\<rfloor>"] by simp
  moreover have "(2::real) powr of_int \<lfloor>log 2 \<bar>x\<bar>\<rfloor> = 2 powi \<lfloor>log 2 \<bar>x\<bar>\<rfloor>"
    by (rule powr_real_of_int') simp_all
  moreover have "(2::real) powr (of_int \<lfloor>log 2 \<bar>x\<bar>\<rfloor> + 1) = 2 powi (\<lfloor>log 2 \<bar>x\<bar>\<rfloor> + 1)"
    using powr_real_of_int' [of "2::real" "\<lfloor>log 2 \<bar>x\<bar>\<rfloor> + 1"] by simp
  ultimately show ?thesis by simp
qed

lemma exponent_less:
  assumes "x \<noteq> 0" "\<bar>x\<bar> < 2 powi n"
  shows "\<lfloor>log 2 \<bar>x\<bar>\<rfloor> < n"
proof (rule ccontr)
  assume "\<not> \<lfloor>log 2 \<bar>x\<bar>\<rfloor> < n"
  then have "n \<le> \<lfloor>log 2 \<bar>x\<bar>\<rfloor>" by simp
  then have "(2::real) powi n \<le> 2 powi \<lfloor>log 2 \<bar>x\<bar>\<rfloor>"
    by (intro power_int_increasing) simp_all
  with exponent_bounds [OF assms(1)] assms(2) show False by linarith
qed

lemma exponent_ge:
  assumes "2 powi n \<le> \<bar>x\<bar>"
  shows "n \<le> \<lfloor>log 2 \<bar>x\<bar>\<rfloor>"
proof (rule ccontr)
  assume "\<not> n \<le> \<lfloor>log 2 \<bar>x\<bar>\<rfloor>"
  then have "\<lfloor>log 2 \<bar>x\<bar>\<rfloor> + 1 \<le> n" by simp
  then have "(2::real) powi (\<lfloor>log 2 \<bar>x\<bar>\<rfloor> + 1) \<le> 2 powi n"
    by (intro power_int_increasing) simp_all
  moreover have "x \<noteq> 0"
  proof
    assume "x = 0"
    with assms have "(2::real) powi n \<le> 0" by simp
    moreover have "(0::real) < 2 powi n" by simp
    ultimately show False by linarith
  qed
  ultimately show False using exponent_bounds [of x] assms by linarith
qed

lemma round_half_even_of_int: "round_half_even (of_int n) = n"
  by (simp add: round_half_even_def)

lemma round_half_even_le:
  assumes "y \<le> of_int N"
  shows "round_half_even y \<le> N"
proof (cases "y = of_int N")
  case True
  then show ?thesis by (simp add: round_half_even_of_int)
next
  case False
  with assms have "y < of_int N" by simp
  then have "\<lfloor>y\<rfloor> < N" by (simp add: floor_less_iff)
  then show ?thesis by (simp add: round_half_even_def Let_def)
qed

lemma round_half_even_ge:
  assumes "of_int N \<le> y"
  shows "N \<le> round_half_even y"
proof -
  from assms have "N \<le> \<lfloor>y\<rfloor>" by (simp add: le_floor_iff)
  then show ?thesis by (simp add: round_half_even_def Let_def)
qed

lemma float64_round_exact:
  assumes "is_float64 z"
  shows "float64_round z = z"
proof (cases "z = 0")
  case True
  then show ?thesis by (simp add: float64_round_def)
next
  case False
  from assms obtain m e :: int where
    z: "z = of_int m * 2 powi e" and m: "\<bar>m\<bar> < 2 ^ 53" and e: "- 1074 \<le> e"
    unfolding is_float64_def by blast
  define k where "k = max \<lfloor>log 2 \<bar>z\<bar>\<rfloor> (- 1022) - 52"
  have "\<bar>z\<bar> = of_int \<bar>m\<bar> * 2 powi e"
    by (simp add: z abs_mult)
  also have "\<dots> < 2 ^ 53 * 2 powi e"
  proof -
    have "(of_int \<bar>m\<bar> :: real) < of_int (2 ^ 53)" using m by (simp only: of_int_less_iff)
    then have "(of_int \<bar>m\<bar> :: real) < 2 ^ 53" by simp
    then show ?thesis by (simp add: mult_strict_right_mono)
  qed
  also have "\<dots> = 2 powi (53 + e)"
    by (simp add: power_int_add)
  finally have "\<bar>z\<bar> < 2 powi (53 + e)" .
  from exponent_less [OF False this] have "\<lfloor>log 2 \<bar>z\<bar>\<rfloor> - 52 \<le> e" by simp
  with e have ke: "k \<le> e" by (simp add: k_def)
  have "z / 2 powi k = of_int m * 2 powi (e - k)"
    by (simp add: z power_int_diff)
  also have "\<dots> = of_int m * 2 ^ nat (e - k)"
    using ke by (simp add: power_int_nonneg_exp)
  also have "\<dots> = of_int (m * 2 ^ nat (e - k))"
    by simp
  finally have q: "z / 2 powi k = of_int (m * 2 ^ nat (e - k))" .
  have "float64_round z = 2 powi k * of_int (round_half_even (z / 2 powi k))"
    using False by (simp add: float64_round_def Let_def k_def)
  also have "\<dots> = 2 powi k * (z / 2 powi k)"
    by (simp only: q round_half_even_of_int)
  also have "\<dots> = z" by simp
  finally show ?thesis .
qed

lemma float64_round_small:
  assumes "0 < z" "z < 360"
  shows "is_float64 (float64_round z) \<and> 0 \<le> float64_round z \<and> float64_round z \<le> 360"
proof -
  define k where "k = max \<lfloor>log 2 \<bar>z\<bar>\<rfloor> (- 1022) - 52"
  define n where "n = round_half_even (z / 2 powi k)"
  have nz: "z \<noteq> 0" using assms by simp
  have fl: "float64_round z = 2 powi k * of_int n"
    using nz by (simp add: float64_round_def Let_def k_def n_def)
  have "\<bar>z\<bar> < 2 powi 9" using assms by simp
  from exponent_less [OF nz this] have k_hi: "k \<le> - 44" and k_lo: "- 1074 \<le> k"
    by (simp_all add: k_def)
  have pos: "(0::real) < 2 powi k" by simp
  have "of_int 0 \<le> z / 2 powi k" using assms pos by simp
  from round_half_even_ge [OF this] have n0: "0 \<le> n" by (simp add: n_def)
  have "\<bar>z\<bar> < 2 powi (\<lfloor>log 2 \<bar>z\<bar>\<rfloor> + 1)"
    using exponent_bounds [OF nz] by blast
  also have "\<dots> \<le> 2 powi (k + 53)"
    by (intro power_int_increasing) (simp_all add: k_def)
  finally have "z < 2 powi (k + 53)" using assms by simp
  then have "z < 2 powi k * 2 ^ 53" by (simp add: power_int_add)
  then have "z / 2 powi k < 2 ^ 53" using pos by (simp add: field_simps)
  then have "z / 2 powi k \<le> of_int (2 ^ 53)" by simp
  from round_half_even_le [OF this] have n53: "n \<le> 2 ^ 53" by (simp add: n_def)
  have "(360::real) / 2 powi k = 360 * 2 powi (- k)"
    by (simp add: power_int_minus field_simps)
  also have "\<dots> = 360 * 2 ^ nat (- k)"
    using k_hi by (simp add: power_int_nonneg_exp)
  also have "\<dots> = of_int (360 * 2 ^ nat (- k))" by simp
  finally have g: "(360::real) / 2 powi k = of_int (360 * 2 ^ nat (- k))" .
  have "z / 2 powi k \<le> 360 / 2 powi k"
    by (rule divide_right_mono) (use assms in simp_all)
  then have "z / 2 powi k \<le> of_int (360 * 2 ^ nat (- k))" by (simp only: g)
  from round_half_even_le [OF this] have "n \<le> 360 * 2 ^ nat (- k)" by (simp add: n_def)
  then have "(of_int n :: real) \<le> of_int (360 * 2 ^ nat (- k))" by (simp only: of_int_le_iff)
  then have "(of_int n :: real) \<le> 360 / 2 powi k" by (simp only: g)
  then have hi: "2 powi k * of_int n \<le> (360::real)"
    using pos by (simp add: field_simps)
  have lo: "(0::real) \<le> 2 powi k * of_int n" using n0 by simp
  have "is_float64 (2 powi k * of_int n)"
  proof (cases "n = 2 ^ 53")
    case True
    have "(2::real) powi k * of_int n = of_int (2 ^ 52) * 2 powi (k + 1)"
      by (simp add: True power_int_add)
    moreover have "\<bar>2 ^ 52 :: int\<bar> < 2 ^ 53" by simp
    moreover have "- 1074 \<le> k + 1" "k + 1 \<le> 971" using k_lo k_hi by simp_all
    ultimately show ?thesis unfolding is_float64_def by blast
  next
    case False
    with n53 n0 have "\<bar>n\<bar> < 2 ^ 53" by simp
    moreover have "(2::real) powi k * of_int n = of_int n * 2 powi k" by simp
    moreover have "k \<le> 971" using k_hi by simp
    ultimately show ?thesis unfolding is_float64_def using k_lo by blast
  qed
  with lo hi show ?thesis by (simp only: fl) 
qed

lemma fmod_nonneg:
  assumes "0 \<le> x"
  shows "0 \<le> fmod x 360 \<and> fmod x 360 < 360 \<and> fmod x 360 \<le> x"
proof -
  have q: "0 \<le> x / 360" using assms by simp
  have f: "fmod x 360 = x - 360 * of_int \<lfloor>x / 360\<rfloor>"
    using q by (simp add: fmod_def)
  have "of_int \<lfloor>x / 360\<rfloor> \<le> x / 360" "x / 360 < of_int \<lfloor>x / 360\<rfloor> + 1"
    by linarith+
  moreover have "0 \<le> \<lfloor>x / 360\<rfloor>" using q by simp
  then have "(0::real) \<le> of_int \<lfloor>x / 360\<rfloor>" by simp
  ultimately show ?thesis unfolding f by (simp add: field_simps)
qed

lemma fmod_neg:
  assumes "x < 0"
  shows "- 360 < fmod x 360 \<and> fmod x 360 \<le> 0 \<and> x \<le> fmod x 360"
proof -
  have q: "\<not> 0 \<le> x / 360" using assms by simp
  have f: "fmod x 360 = x - 360 * of_int \<lceil>x / 360\<rceil>"
    using q by (simp add: fmod_def)
  have a: "x / 360 \<le> of_int \<lceil>x / 360\<rceil>" "of_int \<lceil>x / 360\<rceil> < x / 360 + 1"
    by linarith+
  have "\<lceil>x / 360\<rceil> \<le> 0" using assms by (simp add: ceiling_le_iff)
  then have c: "of_int \<lceil>x / 360\<rceil> \<le> (0::real)" by simp
  from a c show ?thesis unfolding f by linarith
qed

lemma fmod_small:
  assumes "\<bar>y\<bar> < 360"
  shows "fmod y 360 = y"
proof (cases "0 \<le> y")
  case True
  with assms have "\<lfloor>y / 360\<rfloor> = 0" by (simp add: floor_eq_iff)
  with True show ?thesis by (simp add: fmod_def)
next
  case False
  with assms have "\<lceil>y / 360\<rceil> = 0" by (simp add: ceiling_eq_iff)
  with False show ?thesis by (simp add: fmod_def)
qed

lemma fmod_multiple: "\<exists>q :: int. fmod x 360 = x - 360 * of_int q"
  unfolding fmod_def by blast

lemma fmod_abs: "\<bar>fmod x 360\<bar> \<le> \<bar>x\<bar> \<and> \<bar>fmod x 360\<bar> < 360"
proof (cases "0 \<le> x")
  case True
  from fmod_nonneg [OF True] True show ?thesis by simp
next
  case False
  then have "x < 0" by simp
  from fmod_neg [OF this] False show ?thesis by simp
qed

lemma is_float64_grid:
  assumes r: "r = of_int k * 2 powi e" and b: "\<bar>r\<bar> \<le> of_int B * 2 powi e"
    and B: "B < 2 ^ 53" and e: "- 1074 \<le> e" "e \<le> 971"
  shows "is_float64 r"
proof -
  have pos: "(0::real) < 2 powi e" by simp
  have "\<bar>r\<bar> = of_int \<bar>k\<bar> * 2 powi e" by (simp add: r abs_mult)
  with b have "of_int \<bar>k\<bar> * 2 powi e \<le> of_int B * (2::real) powi e" by simp
  then have "(of_int \<bar>k\<bar> :: real) \<le> of_int B" using pos by simp
  then have "\<bar>k\<bar> \<le> B" by (simp only: of_int_le_iff)
  with B have "\<bar>k\<bar> < 2 ^ 53" by simp
  with r e show ?thesis unfolding is_float64_def by blast
qed

lemma multiple_of_360:
  assumes "e \<le> 3"
  shows "(360::real) = of_int (45 * 2 ^ nat (3 - e)) * 2 powi e"
proof -
  have "(2::real) ^ nat (3 - e) = 2 powi (3 - e)"
    using assms by (simp add: power_int_nonneg_exp)
  then have "of_int (45 * 2 ^ nat (3 - e)) * 2 powi e = 45 * (2 powi (3 - e) * (2::real) powi e)"
    by simp
  also have "2 powi (3 - e) * (2::real) powi e = 2 powi 3"
    by (simp flip: power_int_add)
  finally show ?thesis by simp
qed

lemma is_float64_fmod:
  assumes "is_float64 x"
  shows "is_float64 (fmod x 360)"
proof -
  from assms obtain m e :: int where
    x: "x = of_int m * 2 powi e" and m: "\<bar>m\<bar> < 2 ^ 53" and e: "- 1074 \<le> e" "e \<le> 971"
    unfolding is_float64_def by blast
  from fmod_multiple obtain q :: int where q: "fmod x 360 = x - 360 * of_int q" ..
  show ?thesis
  proof (cases "3 \<le> e")
    case True
    have "(2::real) powi e = 2 ^ nat (e - 3) * 2 powi 3"
    proof -
      have "(2::real) ^ nat (e - 3) = 2 powi (e - 3)"
        using True by (simp add: power_int_nonneg_exp)
      moreover have "(2::real) powi ((e - 3) + 3) = 2 powi (e - 3) * 2 powi 3"
        by (rule power_int_add) simp
      ultimately show ?thesis by simp
    qed
    then have "x - 360 * of_int q = of_int (m * 2 ^ nat (e - 3) - 45 * q) * 2 powi 3"
      by (simp add: x algebra_simps)
    with q have "fmod x 360 = of_int (m * 2 ^ nat (e - 3) - 45 * q) * 2 powi 3"
      by (simp only:)
    moreover have "\<bar>fmod x 360\<bar> \<le> of_int 45 * 2 powi 3"
      using fmod_abs [of x] by simp
    ultimately show ?thesis
      by (rule is_float64_grid) simp_all
  next
    case False
    then have le: "e \<le> 3" by simp
    have "x - 360 * of_int q = of_int (m - 45 * 2 ^ nat (3 - e) * q) * 2 powi e"
      by (subst multiple_of_360 [OF le]) (simp add: x algebra_simps)
    with q have "fmod x 360 = of_int (m - 45 * 2 ^ nat (3 - e) * q) * 2 powi e"
      by (simp only:)
    moreover have "\<bar>fmod x 360\<bar> \<le> of_int \<bar>m\<bar> * 2 powi e"
      using fmod_abs [of x] by (simp add: x abs_mult)
    ultimately show ?thesis
      using m e by (rule is_float64_grid)
  qed
qed

lemma is_float64_minus_360:
  assumes f: "is_float64 m" and lo: "180 \<le> m" and hi: "m \<le> 360"
  shows "is_float64 (m - 360)"
proof -
  from f obtain k e :: int where
    m: "m = of_int k * 2 powi e" and k: "\<bar>k\<bar> < 2 ^ 53" and e: "- 1074 \<le> e" "e \<le> 971"
    unfolding is_float64_def by blast
  have d: "\<bar>m - 360\<bar> \<le> 180" using lo hi by simp
  show ?thesis
  proof (cases "3 \<le> e")
    case True
    have "(2::real) powi e = 2 ^ nat (e - 3) * 2 powi 3"
    proof -
      have "(2::real) ^ nat (e - 3) = 2 powi (e - 3)"
        using True by (simp add: power_int_nonneg_exp)
      moreover have "(2::real) powi ((e - 3) + 3) = 2 powi (e - 3) * 2 powi 3"
        by (rule power_int_add) simp
      ultimately show ?thesis by simp
    qed
    then have "m - 360 = of_int (k * 2 ^ nat (e - 3) - 45) * 2 powi 3"
      by (simp add: m algebra_simps)
    moreover have "\<bar>m - 360\<bar> \<le> of_int 45 * 2 powi 3"
      using d by simp
    ultimately show ?thesis
      by (rule is_float64_grid) simp_all
  next
    case False
    then have le: "e \<le> 3" by simp
    have "\<bar>m\<bar> = of_int \<bar>k\<bar> * 2 powi e" by (simp add: m abs_mult)
    also have "\<dots> < 2 ^ 53 * 2 powi e"
    proof -
      have "(of_int \<bar>k\<bar> :: real) < of_int (2 ^ 53)" using k by (simp only: of_int_less_iff)
      then have "(of_int \<bar>k\<bar> :: real) < 2 ^ 53" by simp
      then show ?thesis by (simp add: mult_strict_right_mono)
    qed
    also have "\<dots> = 2 powi (53 + e)" by (simp add: power_int_add)
    finally have "\<bar>m\<bar> < 2 powi (53 + e)" .
    moreover have "(2::real) powi 7 \<le> \<bar>m\<bar>" using lo by simp
    ultimately have lt: "(2::real) powi 7 < 2 powi (53 + e)" by linarith
    have e45: "- 45 \<le> e"
    proof (rule ccontr)
      assume "\<not> - 45 \<le> e"
      then have "53 + e \<le> 7" by simp
      then have "(2::real) powi (53 + e) \<le> 2 powi 7"
        by (intro power_int_increasing) simp_all
      with lt show False by linarith
    qed
    have "m - 360 = of_int (k - 45 * 2 ^ nat (3 - e)) * 2 powi e"
      by (subst multiple_of_360 [OF le]) (simp add: m algebra_simps)
    moreover have "\<bar>m - 360\<bar> \<le> of_int (180 * 2 ^ 45) * 2 powi e"
    proof -
      have "(2::real) powi (- 45) \<le> 2 powi e"
        using e45 by (intro power_int_increasing) simp_all
      then have "(1::real) \<le> 2 ^ 45 * 2 powi e"
        by (simp add: power_int_minus field_simps)
      then have "(180::real) \<le> 180 * (2 ^ 45 * 2 powi e)" by simp
      with d show ?thesis by simp
    qed
    moreover have "(180 * 2 ^ 45 :: int) < 2 ^ 53" by simp
    ultimately show ?thesis
      using e by (rule is_float64_grid)
  qed
qed

section \<open>Pitch angle\<close>

lemma convert_pitch_map:
  "convert_pitch df = map (\<lambda>r. r\<lparr>Ba_avg := signed_angle (Ba_avg r)\<rparr>) df"
  unfolding convert_pitch_def Let_def signed_angle_def
  by (induction df) auto

lemma np_mod_360:
  "np_mod x 360 = (if fmod x 360 < 0 then float64_round (fmod x 360 + 360) else fmod x 360)"
  by (simp add: np_mod_def Let_def)

lemma np_mod_float64:
  assumes "is_float64 x"
  shows "is_float64 (np_mod x 360) \<and> 0 \<le> np_mod x 360 \<and> np_mod x 360 \<le> 360"
proof (cases "fmod x 360 < 0")
  case True
  have "- 360 < fmod x 360"
    using fmod_abs [of x] by linarith
  then have "0 < fmod x 360 + 360" "fmod x 360 + 360 < 360" using True by simp_all
  from float64_round_small [OF this] True show ?thesis
    by (simp add: np_mod_360)
next
  case False
  with fmod_abs [of x] have "0 \<le> fmod x 360" "fmod x 360 \<le> 360" by simp_all
  with is_float64_fmod [OF assms] False show ?thesis
    by (simp add: np_mod_360)
qed

lemma signed_angle_Some:
  "signed_angle (Some x) =
     Some (if 180 < np_mod x 360 then float64_round (np_mod x 360 - 360) else np_mod x 360)"
  by (simp add: signed_angle_def cell_mod_def cell_gt_def cell_sub_def)

lemma signed_angle_None: "signed_angle None = None"
  by (simp add: signed_angle_def cell_mod_def cell_gt_def)

lemma signed_angle_cases:
  assumes "is_float64 x"
  shows "(\<exists>y. signed_angle (Some x) = Some y \<and> 0 \<le> y \<and> y \<le> 180) \<or>
     (\<exists>m. signed_angle (Some x) = Some (m - 360) \<and> is_float64 m \<and> 180 < m \<and> m < 360)"
proof -
  from np_mod_float64 [OF assms]
  have f: "is_float64 (np_mod x 360)" and lo: "0 \<le> np_mod x 360" and hi: "np_mod x 360 \<le> 360"
    by simp_all
  show ?thesis
  proof (cases "180 < np_mod x 360")
    case False
    with lo show ?thesis by (simp add: signed_angle_Some)
  next
    case True
    then have "180 \<le> np_mod x 360" by simp
    from is_float64_minus_360 [OF f this hi]
    have ex: "float64_round (np_mod x 360 - 360) = np_mod x 360 - 360"
      by (rule float64_round_exact)
    show ?thesis
    proof (cases "np_mod x 360 = 360")
      case True
      then show ?thesis by (simp add: signed_angle_Some float64_round_def)
    next
      case False
      with hi have "np_mod x 360 < 360" by simp
      with True f ex show ?thesis by (auto simp: signed_angle_Some)
    qed
  qed
qed

lemma signed_angle_range:
  assumes "is_float64 x"
  shows "\<exists>y. signed_angle (Some x) = Some y \<and> - 180 < y \<and> y \<le> 180"
  using signed_angle_cases [OF assms] by force

lemma signed_angle_nonneg_canonical:
  assumes "0 \<le> y" "y \<le> 180"
  shows "signed_angle (Some y) = Some y"
proof -
  from assms have "fmod y 360 = y" by (intro fmod_small) simp
  with assms have "np_mod y 360 = y" by (simp add: np_mod_360)
  with assms show ?thesis by (simp add: signed_angle_Some)
qed

lemma signed_angle_idem:
  assumes "is_float64 x"
  shows "signed_angle (signed_angle (Some x)) = signed_angle (Some x)"
  using signed_angle_cases [OF assms]
proof (elim disjE exE conjE)
  fix y assume "signed_angle (Some x) = Some y" "0 \<le> y" "y \<le> 180"
  then show ?thesis by (simp add: signed_angle_nonneg_canonical)
next
  fix m assume s: "signed_angle (Some x) = Some (m - 360)"
    and f: "is_float64 m" and lo: "180 < m" and hi: "m < 360"
  from lo hi have "fmod (m - 360) 360 = m - 360" by (intro fmod_small) simp
  with lo hi have "np_mod (m - 360) 360 = float64_round m" by (simp add: np_mod_360)
  with float64_round_exact [OF f] have n: "np_mod (m - 360) 360 = m" by simp
  from lo hi have "180 \<le> m" "m \<le> 360" by simp_all
  from float64_round_exact [OF is_float64_minus_360 [OF f this]]
  have "float64_round (m - 360) = m - 360" .
  with n lo have "signed_angle (Some (m - 360)) = Some (m - 360)"
    by (simp add: signed_angle_Some)
  with s show ?thesis by simp
qed

lemma float64_round_down:
  assumes e: "2 powi e \<le> \<bar>x\<bar>" "\<bar>x\<bar> < 2 powi (e + 1)" "- 1022 \<le> e"
    and n: "of_int n \<le> x / 2 powi (e - 52)" "x / 2 powi (e - 52) < of_int n + 1 / 2"
  shows "float64_round x = 2 powi (e - 52) * of_int n"
proof -
  have nz: "x \<noteq> 0"
  proof
    assume "x = 0"
    with e(1) have "(2::real) powi e \<le> 0" by simp
    moreover have "(0::real) < 2 powi e" by simp
    ultimately show False by linarith
  qed
  have "e \<le> \<lfloor>log 2 \<bar>x\<bar>\<rfloor>" by (rule exponent_ge [OF e(1)])
  moreover have "\<lfloor>log 2 \<bar>x\<bar>\<rfloor> < e + 1" by (rule exponent_less [OF nz e(2)])
  ultimately have "\<lfloor>log 2 \<bar>x\<bar>\<rfloor> = e" by simp
  with e(3) have k: "max \<lfloor>log 2 \<bar>x\<bar>\<rfloor> (- 1022) - 52 = e - 52" by simp
  from n have fl: "\<lfloor>x / 2 powi (e - 52)\<rfloor> = n" by (simp add: floor_eq_iff)
  from n(2) have "x / 2 powi (e - 52) - of_int n < 1 / 2" by linarith
  then have "round_half_even (x / 2 powi (e - 52)) = n"
    unfolding round_half_even_def Let_def fl by (simp only: if_True)
  with nz k show ?thesis by (simp add: float64_round_def Let_def)
qed

lemma signed_angle_minus_tenth:
  "signed_angle (Some (- 3602879701896397 / 36028797018963968)) =
     Some (- 879609302221 / 8796093022208)"
proof -
  let ?x = "- 3602879701896397 / 36028797018963968 :: real"
  let ?m = "3165713878692659 / 8796093022208 :: real"
  let ?y = "- 879609302221 / 8796093022208 :: real"
  have "fmod ?x 360 = ?x" by (intro fmod_small) simp
  then have m: "np_mod ?x 360 = float64_round (?x + 360)" by (simp add: np_mod_360)
  have a: "float64_round (?x + 360) = 2 powi (8 - 52) * of_int 6331427757385318"
    by (rule float64_round_down) simp_all
  have b: "2 powi (8 - 52) * of_int 6331427757385318 = ?m" by simp
  from a b have r: "float64_round (?x + 360) = ?m" by (rule trans)
  have d: "?m - 360 = ?y" by simp
  have gt: "180 < ?m" by simp
  have "is_float64 ?y"
  proof -
    have "?y = of_int (- 879609302221) * 2 powi (- 43)"
      by simp
    moreover have "\<bar>- 879609302221 :: int\<bar> < 2 ^ 53" by simp
    moreover have "- 1074 \<le> (- 43 :: int)" "(- 43 :: int) \<le> 971" by simp_all
    ultimately show ?thesis unfolding is_float64_def by blast
  qed
  then have e: "float64_round ?y = ?y" by (rule float64_round_exact)
  show ?thesis
    by (simp only: signed_angle_Some m r gt if_True d e)
qed

lemma is_float64_minus_tenth: "is_float64 (- 3602879701896397 / 36028797018963968)"
proof -
  have "((- 3602879701896397 / 36028797018963968) :: real) = of_int (- 3602879701896397) * 2 powi (- 55)"
    by simp
  moreover have "\<bar>- 3602879701896397 :: int\<bar> < 2 ^ 53" by simp
  moreover have "- 1074 \<le> (- 55 :: int)" "(- 55 :: int) \<le> 971" by simp_all
  ultimately show ?thesis unfolding is_float64_def by blast
qed

lemma is_float64_of_int:
  assumes "\<bar>n\<bar> < 2 ^ 53"
  shows "is_float64 (of_int n)"
proof -
  have "(of_int n :: real) = of_int n * 2 powi 0" by simp
  moreover have "- 1074 \<le> (0 :: int)" "(0 :: int) \<le> 971" by simp_all
  ultimately show ?thesis using assms unfolding is_float64_def by blast
qed

lemma signed_angle_370: "signed_angle (Some 370) = Some 10"
proof -
  have "fmod 370 360 = 10" by (simp add: fmod_def)
  then have "np_mod 370 360 = 10" by (simp add: np_mod_360)
  then show ?thesis by (simp add: signed_angle_Some)
qed

lemma signed_angle_190: "signed_angle (Some 190) = Some (- 170)"
proof -
  have "fmod 190 360 = 190" by (intro fmod_small) simp
  then have n: "np_mod 190 360 = 190" by (simp add: np_mod_360)
  have "is_float64 (of_int (- 170))" by (rule is_float64_of_int) simp
  then have "is_float64 (- 170)" by simp
  then have "float64_round (- 170) = - 170" by (rule float64_round_exact)
  with n show ?thesis by (simp add: signed_angle_Some)
qed

text \<open>
  C5, as stated, fails: applying the conversion to an already canonical value is not
  always a no-op.  The float64 value nearest to -0.1 lies in (-180, 180]; its remainder
  is the rounded sum with 360, and the conversion returns -0.10000000000002274.
\<close>

theorem convert_pitch_counterexample:
  "is_float64 (- 3602879701896397 / 36028797018963968) \<and>
   - 180 < ((- 3602879701896397 / 36028797018963968) :: real) \<and>
   ((- 3602879701896397 / 36028797018963968) :: real) \<le> 180 \<and>
   convert_pitch
     [\<lparr>Date_time = 0, Wind_turbine_name = ''R80711'', Ba_avg = Some (- 3602879701896397 / 36028797018963968), P_avg = Some 2,
         Ws_avg = Some 3, Va_avg = Some 4, Ot_avg = Some 5, Ya_avg = Some 6, Wa_avg = Some 7\<rparr>] =
     [\<lparr>Date_time = 0, Wind_turbine_name = ''R80711'', Ba_avg = Some (- 879609302221 / 8796093022208), P_avg = Some 2,
         Ws_avg = Some 3, Va_avg = Some 4, Ot_avg = Some 5, Ya_avg = Some 6, Wa_avg = Some 7\<rparr>] \<and>
   convert_pitch
     [\<lparr>Date_time = 0, Wind_turbine_name = ''R80711'', Ba_avg = Some (- 3602879701896397 / 36028797018963968), P_avg = Some 2,
         Ws_avg = Some 3, Va_avg = Some 4, Ot_avg = Some 5, Ya_avg = Some 6, Wa_avg = Some 7\<rparr>] \<noteq>
     [\<lparr>Date_time = 0, Wind_turbine_name = ''R80711'', Ba_avg = Some (- 3602879701896397 / 36028797018963968), P_avg = Some 2,
         Ws_avg = Some 3, Va_avg = Some 4, Ot_avg = Some 5, Ya_avg = Some 6, Wa_avg = Some 7\<rparr>]"
proof -
  have c: "convert_pitch
     [\<lparr>Date_time = 0, Wind_turbine_name = ''R80711'', Ba_avg = Some (- 3602879701896397 / 36028797018963968), P_avg = Some 2,
         Ws_avg = Some 3, Va_avg = Some 4, Ot_avg = Some 5, Ya_avg = Some 6, Wa_avg = Some 7\<rparr>] =
     [\<lparr>Date_time = 0, Wind_turbine_name = ''R80711'', Ba_avg = Some (- 879609302221 / 8796093022208), P_avg = Some 2,
         Ws_avg = Some 3, Va_avg = Some 4, Ot_avg = Some 5, Ya_avg = Some 6, Wa_avg = Some 7\<rparr>]"
    using signed_angle_minus_tenth by (simp add: convert_pitch_map)
  show ?thesis
    unfolding c using is_float64_minus_tenth by simp
qed

text \<open>
  C5, amended.  Every float64 pitch value is mapped to a value in the half-open interval
  (-180, 180], the other columns being untouched; on a frame of float64 values the
  conversion is idempotent (a second application changes nothing); a frame whose pitch
  values lie in [0, 180] is left unchanged; 370 maps to 10 and 190 to -170.  NaN stays
  NaN.
\<close>

theorem convert_pitch_range_idempotent:
  "length (convert_pitch df) = length df \<and>
   (\<forall>i x. i < length df \<and> Ba_avg (df ! i) = Some x \<and> is_float64 x \<longrightarrow>
      (\<exists>y. convert_pitch df ! i = (df ! i)\<lparr>Ba_avg := Some y\<rparr> \<and> - 180 < y \<and> y \<le> 180)) \<and>
   ((\<forall>r \<in> set df. \<forall>x. Ba_avg r = Some x \<longrightarrow> is_float64 x) \<longrightarrow>
      convert_pitch (convert_pitch df) = convert_pitch df) \<and>
   ((\<forall>r \<in> set df. \<forall>x. Ba_avg r = Some x \<longrightarrow> 0 \<le> x \<and> x \<le> 180) \<longrightarrow> convert_pitch df = df) \<and>
   map Ba_avg (convert_pitch [r\<lparr>Ba_avg := Some 370\<rparr>, r\<lparr>Ba_avg := Some 190\<rparr>]) =
     [Some 10, Some (- 170)]"
proof (rule conjI [OF _ conjI [OF _ conjI [OF _ conjI]]])
  show "length (convert_pitch df) = length df"
    by (simp add: convert_pitch_map)
next
  show "\<forall>i x. i < length df \<and> Ba_avg (df ! i) = Some x \<and> is_float64 x \<longrightarrow>
      (\<exists>y. convert_pitch df ! i = (df ! i)\<lparr>Ba_avg := Some y\<rparr> \<and> - 180 < y \<and> y \<le> 180)"
  proof (intro allI impI)
    fix i x
    assume a: "i < length df \<and> Ba_avg (df ! i) = Some x \<and> is_float64 x"
    then have "is_float64 x" by blast
    from signed_angle_range [OF this] obtain y where
      y: "signed_angle (Some x) = Some y" "- 180 < y" "y \<le> 180" by blast
    from a y(1) have "convert_pitch df ! i = (df ! i)\<lparr>Ba_avg := Some y\<rparr>"
      by (simp add: convert_pitch_map)
    with y show "\<exists>y. convert_pitch df ! i = (df ! i)\<lparr>Ba_avg := Some y\<rparr> \<and> - 180 < y \<and> y \<le> 180"
      by blast
  qed
next
  show "(\<forall>r \<in> set df. \<forall>x. Ba_avg r = Some x \<longrightarrow> is_float64 x) \<longrightarrow>
      convert_pitch (convert_pitch df) = convert_pitch df"
  proof
    assume f: "\<forall>r \<in> set df. \<forall>x. Ba_avg r = Some x \<longrightarrow> is_float64 x"
    have "\<And>r. r \<in> set df \<Longrightarrow> signed_angle (signed_angle (Ba_avg r)) = signed_angle (Ba_avg r)"
    proof -
      fix r assume r: "r \<in> set df"
      show "signed_angle (signed_angle (Ba_avg r)) = signed_angle (Ba_avg r)"
      proof (cases "Ba_avg r")
        case None
        then show ?thesis by (simp add: signed_angle_None)
      next
        case (Some x)
        with f r have "is_float64 x" by blast
        from signed_angle_idem [OF this] Some show ?thesis by simp
      qed
    qed
    then show "convert_pitch (convert_pitch df) = convert_pitch df"
      by (simp add: convert_pitch_map)
  qed
next
  show "(\<forall>r \<in> set df. \<forall>x. Ba_avg r = Some x \<longrightarrow> 0 \<le> x \<and> x \<le> 180) \<longrightarrow> convert_pitch df = df"
  proof
    assume c: "\<forall>r \<in> set df. \<forall>x. Ba_avg r = Some x \<longrightarrow> 0 \<le> x \<and> x \<le> 180"
    have "\<And>r. r \<in> set df \<Longrightarrow> r\<lparr>Ba_avg := signed_angle (Ba_avg r)\<rparr> = r"
    proof -
      fix r assume r: "r \<in> set df"
      show "r\<lparr>Ba_avg := signed_angle (Ba_avg r)\<rparr> = r"
      proof (cases "Ba_avg r")
        case None
        then show ?thesis by (simp add: signed_angle_None)
      next
        case (Some x)
        with c r have "0 \<le> x" "x \<le> 180" by auto
        from signed_angle_nonneg_canonical [OF this] Some show ?thesis by simp
      qed
    qed
    then show "convert_pitch df = df"
      by (simp add: convert_pitch_map map_idI)
  qed
next
  show "map Ba_avg (convert_pitch [r\<lparr>Ba_avg := Some 370\<rparr>, r\<lparr>Ba_avg := Some 190\<rparr>]) =
     [Some 10, Some (- 170)]"
    by (simp add: convert_pitch_map signed_angle_370 signed_angle_190)
qed

theorem convert_pitch_range_idempotent_witness:
  "(let wrapped =
       [\<lparr>Date_time = 0, Wind_turbine_name = ''R80711'', Ba_avg = Some 370, P_avg = Some 2,
         Ws_avg = Some 3, Va_avg = Some 4, Ot_avg = Some 5, Ya_avg = Some 6, Wa_avg = Some 7\<rparr>];
     tenth =
       [\<lparr>Date_time = 0, Wind_turbine_name = ''R80711'', Ba_avg = Some (- 3602879701896397 / 36028797018963968), P_avg = Some 2,
         Ws_avg = Some 3, Va_avg = Some 4, Ot_avg = Some 5, Ya_avg = Some 6, Wa_avg = Some 7\<rparr>];
     canonical =
       [\<lparr>Date_time = 0, Wind_turbine_name = ''R80711'', Ba_avg = Some 90, P_avg = Some 2,
         Ws_avg = Some 3, Va_avg = Some 4, Ot_avg = Some 5, Ya_avg = Some 6, Wa_avg = Some 7\<rparr>]
    in (0::nat) < length wrapped \<and> Ba_avg (wrapped ! 0) = Some 370 \<and> is_float64 370 \<and>
       (\<exists>y. convert_pitch wrapped ! 0 = (wrapped ! 0)\<lparr>Ba_avg := Some y\<rparr> \<and> - 180 < y \<and> y \<le> 180) \<and>
       list_all (\<lambda>r. \<forall>x. Ba_avg r = Some x \<longrightarrow> is_float64 x) tenth \<and>
       convert_pitch (convert_pitch tenth) = convert_pitch tenth \<and>
       list_all (\<lambda>r. \<forall>x. Ba_avg r = Some x \<longrightarrow> 0 \<le> x \<and> x \<le> 180) canonical \<and>
       convert_pitch canonical = canonical)"
proof -
  let ?wrapped =
      "[\<lparr>Date_time = 0, Wind_turbine_name = ''R80711'', Ba_avg = Some 370, P_avg = Some 2,
         Ws_avg = Some 3, Va_avg = Some 4, Ot_avg = Some 5, Ya_avg = Some 6, Wa_avg = Some 7\<rparr>]"
  let ?tenth =
      "[\<lparr>Date_time = 0, Wind_turbine_name = ''R80711'', Ba_avg = Some (- 3602879701896397 / 36028797018963968), P_avg = Some 2,
         Ws_avg = Some 3, Va_avg = Some 4, Ot_avg = Some 5, Ya_avg = Some 6, Wa_avg = Some 7\<rparr>]"
  let ?canonical =
      "[\<lparr>Date_time = 0, Wind_turbine_name = ''R80711'', Ba_avg = Some 90, P_avg = Some 2,
         Ws_avg = Some 3, Va_avg = Some 4, Ot_avg = Some 5, Ya_avg = Some 6, Wa_avg = Some 7\<rparr>]"
  have "is_float64 (of_int 370)" by (rule is_float64_of_int) simp
  then have f370: "is_float64 370" by simp
  have w1: "(0::nat) < length ?wrapped" and w2: "Ba_avg (?wrapped ! 0) = Some 370"
    by simp_all
  from convert_pitch_range_idempotent [of ?wrapped] w1 w2 f370
  have a: "\<exists>y. convert_pitch ?wrapped ! 0 = (?wrapped ! 0)\<lparr>Ba_avg := Some y\<rparr> \<and> - 180 < y \<and> y \<le> 180"
    by blast
  have t: "\<forall>r \<in> set ?tenth. \<forall>x. Ba_avg r = Some x \<longrightarrow> is_float64 x"
    using is_float64_minus_tenth by simp
  from convert_pitch_range_idempotent [of ?tenth] t
  have b: "convert_pitch (convert_pitch ?tenth) = convert_pitch ?tenth"
    by blast
  have c: "\<forall>r \<in> set ?canonical. \<forall>x. Ba_avg r = Some x \<longrightarrow> 0 \<le> x \<and> x \<le> 180"
    by simp
  from convert_pitch_range_idempotent [of ?canonical] c
  have d: "convert_pitch ?canonical = ?canonical"
    by blast
  from t have t': "list_all (\<lambda>r. \<forall>x. Ba_avg r = Some x \<longrightarrow> is_float64 x) ?tenth"
    by (simp only: list_all_iff)
  from c have c': "list_all (\<lambda>r. \<forall>x. Ba_avg r = Some x \<longrightarrow> 0 \<le> x \<and> x \<le> 180) ?canonical"
    by (simp only: list_all_iff)
  show ?thesis
    unfolding Let_def
    by (intro conjI) (rule w1 w2 f370 a t' b c' d)+
qed

section \<open>Energy production\<close>

lemma energy_production_nth:
  "i < length df \<Longrightarrow> energy_kwh (energy_production df ! i) = map_option (\<lambda>p. p * (10 / 60)) (P_avg (df ! i))"
  by (cases "P_avg (df ! i)")
    (simp_all add: energy_production_def scada_row.defs cell_div_def cell_mul_def
      convert_power_to_energy_def scada_freq_def)

text \<open>
  C7.  The energy of an interval is the power (kW) times the interval's duration
  (10 minutes, that is 10/60 h), in kWh.  It is linear in the power: doubling the power
  column doubles the energy column, and zero power gives zero energy.
\<close>

theorem energy_production_linear:
  "length (energy_production df) = length df \<and>
   (\<forall>i p. i < length df \<and> P_avg (df ! i) = Some p \<longrightarrow>
      energy_kwh (energy_production df ! i) = Some (p * (10 / 60))) \<and>
   (\<forall>i. i < length df \<longrightarrow>
      energy_kwh (energy_production (map (\<lambda>r. r\<lparr>P_avg := cell_mul (P_avg r) 2\<rparr>) df) ! i) =
        cell_mul (energy_kwh (energy_production df ! i)) 2) \<and>
   (\<forall>i. i < length df \<and> P_avg (df ! i) = Some 0 \<longrightarrow>
      energy_kwh (energy_production df ! i) = Some 0)"
proof (intro conjI allI impI)
  show "length (energy_production df) = length df"
    by (simp add: energy_production_def)
next
  fix i p assume "i < length df \<and> P_avg (df ! i) = Some p"
  then show "energy_kwh (energy_production df ! i) = Some (p * (10 / 60))"
    by (simp add: energy_production_nth)
next
  fix i assume i: "i < length df"
  show "energy_kwh (energy_production (map (\<lambda>r. r\<lparr>P_avg := cell_mul (P_avg r) 2\<rparr>) df) ! i) =
        cell_mul (energy_kwh (energy_production df ! i)) 2"
    using i by (cases "P_avg (df ! i)") (simp_all add: energy_production_nth cell_mul_def)
next
  fix i assume "i < length df \<and> P_avg (df ! i) = Some 0"
  then show "energy_kwh (energy_production df ! i) = Some 0"
    by (simp add: energy_production_nth)
qed

theorem energy_production_linear_witness:
  "(let df = [\<lparr>Date_time = 0, Wind_turbine_name = ''R80711'', Ba_avg = Some 1, P_avg = Some 600,
       Ws_avg = Some 3, Va_avg = Some 4, Ot_avg = Some 5, Ya_avg = Some 6, Wa_avg = Some 7\<rparr>,
      \<lparr>Date_time = 600, Wind_turbine_name = ''R80711'', Ba_avg = Some 1, P_avg = Some 0,
       Ws_avg = Some 3, Va_avg = Some 4, Ot_avg = Some 5, Ya_avg = Some 6, Wa_avg = Some 7\<rparr>]
    in (0::nat) < length df \<and> P_avg (df ! 0) = Some 600 \<and>
       energy_kwh (energy_production df ! 0) = Some 100 \<and>
       energy_kwh (energy_production (map (\<lambda>r. r\<lparr>P_avg := cell_mul (P_avg r) 2\<rparr>) df) ! 0) = Some 200 \<and>
       (1::nat) < length df \<and> P_avg (df ! 1) = Some 0 \<and>
       energy_kwh (energy_production df ! 1) = Some 0)"
  using energy_production_linear
    [of "[\<lparr>Date_time = 0, Wind_turbine_name = ''R80711'', Ba_avg = Some 1, P_avg = Some 600,
       Ws_avg = Some 3, Va_avg = Some 4, Ot_avg = Some 5, Ya_avg = Some 6, Wa_avg = Some 7\<rparr>,
      \<lparr>Date_time = 600, Wind_turbine_name = ''R80711'', Ba_avg = Some 1, P_avg = Some 0,
       Ws_avg = Some 3, Va_avg = Some 4, Ot_avg = Some 5, Ya_avg = Some 6, Wa_avg = Some 7\<rparr>]"]
  by (simp add: cell_mul_def)

section \<open>Unresponsive-sensor detector\<close>

lemma unresponsive_flag_length: "length (unresponsive_flag xs w) = length xs"
  by (simp add: unresponsive_flag_def)

lemma unresponsive_flag_nth:
  assumes "j < length xs"
  shows "unresponsive_flag xs w ! j \<longleftrightarrow> (\<exists>e. j \<le> e \<and> e < j + w \<and> constant_window xs w e)"
proof -
  have "unresponsive_flag xs w ! j = list_ex (\<lambda>e. constant_window xs w e) [j..<j + w]"
    using assms by (simp add: unresponsive_flag_def)
  also have "\<dots> \<longleftrightarrow> (\<exists>e \<in> set [j..<j + w]. constant_window xs w e)"
    by (simp only: list_ex_iff)
  also have "\<dots> \<longleftrightarrow> (\<exists>e. j \<le> e \<and> e < j + w \<and> constant_window xs w e)"
    by (simp only: set_upt atLeastLessThan_iff Bex_def conj_assoc)
  finally show ?thesis .
qed

lemma constant_window_iff:
  "constant_window xs w e \<longleftrightarrow>
     w \<le> Suc e \<and> e < length xs \<and> (\<forall>k. Suc e - w \<le> k \<and> k \<le> e \<longrightarrow> xs ! k = xs ! e)"
proof -
  have la: "list_all (\<lambda>k. xs ! (e - k) = xs ! e) [0..<w] \<longleftrightarrow> (\<forall>k < w. xs ! (e - k) = xs ! e)"
    by (auto simp add: list_all_iff)
  have "(\<forall>k < w. xs ! (e - k) = xs ! e) \<longleftrightarrow> (\<forall>k. Suc e - w \<le> k \<and> k \<le> e \<longrightarrow> xs ! k = xs ! e)"
    if w: "w \<le> Suc e"
  proof
    assume a: "\<forall>k < w. xs ! (e - k) = xs ! e"
    show "\<forall>k. Suc e - w \<le> k \<and> k \<le> e \<longrightarrow> xs ! k = xs ! e"
    proof (intro allI impI)
      fix k assume k: "Suc e - w \<le> k \<and> k \<le> e"
      with w have "e - k < w" by arith
      with a have "xs ! (e - (e - k)) = xs ! e" by blast
      moreover from k have "e - (e - k) = k" by arith
      ultimately show "xs ! k = xs ! e" by simp
    qed
  next
    assume a: "\<forall>k. Suc e - w \<le> k \<and> k \<le> e \<longrightarrow> xs ! k = xs ! e"
    show "\<forall>k < w. xs ! (e - k) = xs ! e"
    proof (intro allI impI)
      fix k assume "k < w"
      with w have "Suc e - w \<le> e - k \<and> e - k \<le> e" by arith
      with a show "xs ! (e - k) = xs ! e" by blast
    qed
  qed
  then show ?thesis
    unfolding constant_window_def la by blast
qed

lemma unresponsive_flag_window:
  assumes "j < length xs"
  shows "unresponsive_flag xs w ! j \<longleftrightarrow>
     (\<exists>s. s \<le> j \<and> j < s + w \<and> s + w \<le> length xs \<and> (\<forall>k. s \<le> k \<and> k < s + w \<longrightarrow> xs ! k = xs ! j))"
    (is "?L \<longleftrightarrow> ?R")
proof
  assume ?L
  then obtain e where e: "j \<le> e" "e < j + w" "constant_window xs w e"
    using unresponsive_flag_nth [OF assms] by blast
  from e(3) have c: "w \<le> Suc e" "e < length xs"
    "\<forall>k. Suc e - w \<le> k \<and> k \<le> e \<longrightarrow> xs ! k = xs ! e"
    unfolding constant_window_iff by blast+
  let ?s = "Suc e - w"
  have "?s \<le> j" "j < ?s + w" "?s + w \<le> length xs" using e c by arith+
  moreover have "\<forall>k. ?s \<le> k \<and> k < ?s + w \<longrightarrow> xs ! k = xs ! j"
  proof (intro allI impI)
    fix k assume k: "?s \<le> k \<and> k < ?s + w"
    with c have "k \<le> e" by arith
    with k c(3) have 1: "xs ! k = xs ! e" by blast
    from \<open>?s \<le> j\<close> e(1) c(3) have "xs ! j = xs ! e" by blast
    with 1 show "xs ! k = xs ! j" by simp
  qed
  ultimately show ?R by blast
next
  assume ?R
  then obtain s where s: "s \<le> j" "j < s + w" "s + w \<le> length xs"
    "\<forall>k. s \<le> k \<and> k < s + w \<longrightarrow> xs ! k = xs ! j" by blast
  let ?e = "s + w - 1"
  from s have w: "0 < w" by arith
  have "constant_window xs w ?e"
    unfolding constant_window_iff
  proof (intro conjI allI impI)
    show "w \<le> Suc ?e" using w by arith
    show "?e < length xs" using s w by arith
    fix k assume "Suc ?e - w \<le> k \<and> k \<le> ?e"
    with w have k: "s \<le> k \<and> k < s + w" by arith
    from w have "s \<le> ?e \<and> ?e < s + w" by arith
    with s(4) have "xs ! ?e = xs ! j" by blast
    moreover from k s(4) have "xs ! k = xs ! j" by blast
    ultimately show "xs ! k = xs ! ?e" by simp
  qed
  moreover have "j \<le> ?e" "?e < j + w" using s w by arith+
  ultimately show ?L using unresponsive_flag_nth [OF assms] by blast
qed

lemma unresponsive_flag_short:
  assumes "length xs < w"
  shows "unresponsive_flag xs w = replicate (length xs) False"
proof (rule nth_equalityI)
  show "length (unresponsive_flag xs w) = length (replicate (length xs) False)"
    by (simp add: unresponsive_flag_length)
next
  fix j assume "j < length (unresponsive_flag xs w)"
  then have j: "j < length xs" by (simp add: unresponsive_flag_length)
  have "\<not> unresponsive_flag xs w ! j"
    using unresponsive_flag_window [OF j, of w] assms by auto
  with j show "unresponsive_flag xs w ! j = replicate (length xs) False ! j" by simp
qed

lemma unresponsive_flag_run_then_change:
  assumes "2 \<le> w" "u \<noteq> v"
  shows "unresponsive_flag (replicate w v @ [u]) w = replicate w True @ [False]"
proof (rule nth_equalityI)
  show "length (unresponsive_flag (replicate w v @ [u]) w) = length (replicate w True @ [False])"
    by (simp add: unresponsive_flag_length)
next
  fix j assume "j < length (unresponsive_flag (replicate w v @ [u]) w)"
  then have j: "j < length (replicate w v @ [u])" by (simp add: unresponsive_flag_length)
  let ?xs = "replicate w v @ [u]"
  show "unresponsive_flag ?xs w ! j = (replicate w True @ [False]) ! j"
  proof (cases "j < w")
    case True
    have "\<forall>k. 0 \<le> k \<and> k < 0 + w \<longrightarrow> ?xs ! k = ?xs ! j"
      using True by (simp add: nth_append)
    moreover have "0 \<le> j \<and> j < 0 + w \<and> 0 + w \<le> length ?xs"
      using True by simp
    ultimately have "\<exists>s. s \<le> j \<and> j < s + w \<and> s + w \<le> length ?xs \<and>
        (\<forall>k. s \<le> k \<and> k < s + w \<longrightarrow> ?xs ! k = ?xs ! j)"
      by blast
    then have "unresponsive_flag ?xs w ! j"
      by (simp only: unresponsive_flag_window [OF j, of w])
    with True show ?thesis by (simp add: nth_append)
  next
    case False
    with j have jw: "j = w" by simp
    have "\<not> unresponsive_flag ?xs w ! j"
    proof
      assume "unresponsive_flag ?xs w ! j"
      then obtain s where s: "s \<le> j" "j < s + w" "s + w \<le> length ?xs"
        "\<forall>k. s \<le> k \<and> k < s + w \<longrightarrow> ?xs ! k = ?xs ! j"
        using unresponsive_flag_window [OF j, of w] by blast
      have "length ?xs = Suc w" by simp
      with s(1,2,3) jw assms(1) have "s \<le> w - 1 \<and> w - 1 < s + w" by arith
      with s(4) have "?xs ! (w - 1) = ?xs ! j" by blast
      with jw assms show False by (simp add: nth_append)
    qed
    with jw show ?thesis by (simp add: nth_append)
  qed
qed

lemma unresponsive_flag_short_run:
  assumes xs: "xs = pre @ replicate (w - 1) v @ post"
    and before: "pre = [] \<or> last pre \<noteq> v"
    and after: "post = [] \<or> hd post \<noteq> v"
    and j: "length pre \<le> j" "j < length pre + (w - 1)"
  shows "\<not> unresponsive_flag xs w ! j"
proof
  assume flagged: "unresponsive_flag xs w ! j"
  have jlen: "j < length xs" using j xs by simp
  have xj: "xs ! j = v" using j xs by (auto simp: nth_append)
  from flagged obtain s where s: "s \<le> j" "j < s + w" "s + w \<le> length xs"
    and const: "\<forall>k. s \<le> k \<and> k < s + w \<longrightarrow> xs ! k = xs ! j"
    using unresponsive_flag_window [OF jlen, of w] by blast
  show False
  proof (cases "s < length pre")
    case True
    then have ne: "pre \<noteq> []" by auto
    from True s j have "s \<le> length pre - 1 \<and> length pre - 1 < s + w" by arith
    with const xj have "xs ! (length pre - 1) = v" by metis
    moreover have "xs ! (length pre - 1) = last pre"
      using ne xs by (simp add: nth_append last_conv_nth)
    ultimately show False using before ne by simp
  next
    case False
    let ?k = "length pre + (w - 1)"
    from False s j have k: "s \<le> ?k \<and> ?k < s + w" by arith
    with const xj have v: "xs ! ?k = v" by metis
    from k s(3) xs have ne: "post \<noteq> []" by auto
    have "xs ! ?k = hd post"
      using ne xs by (simp add: nth_append hd_conv_nth)
    with v after ne show False by simp
  qed
qed

text \<open>
  C3.  The detector with window length \<open>w\<close> marks position \<open>j\<close> exactly when \<open>j\<close> lies in
  a window of \<open>w\<close> consecutive samples of the stream that all carry the same value.  A run
  of \<open>w\<close> equal values followed by a different value marks the \<open>w\<close> positions of the run and
  not the tail (\<open>w \<ge> 2\<close>; for \<open>w = 1\<close> every sample is a full window of its own); a run
  of \<open>w - 1\<close> equal values bounded by different values (or by the ends of the stream) is
  not marked; a stream shorter than \<open>w\<close> has no full window and nothing in it is marked.
\<close>

theorem unresponsive_flag_runs:
  "length (unresponsive_flag xs w) = length xs \<and>
   (\<forall>j < length xs. unresponsive_flag xs w ! j \<longleftrightarrow>
      (\<exists>s. s \<le> j \<and> j < s + w \<and> s + w \<le> length xs \<and>
           (\<forall>k. s \<le> k \<and> k < s + w \<longrightarrow> xs ! k = xs ! j))) \<and>
   (2 \<le> w \<and> u \<noteq> v \<longrightarrow>
      unresponsive_flag (replicate w v @ [u]) w = replicate w True @ [False]) \<and>
   ((pre = [] \<or> last pre \<noteq> v) \<and> (post = [] \<or> hd post \<noteq> v) \<longrightarrow>
      (\<forall>j. length pre \<le> j \<and> j < length pre + (w - 1) \<longrightarrow>
         \<not> unresponsive_flag (pre @ replicate (w - 1) v @ post) w ! j)) \<and>
   (length xs < w \<longrightarrow> unresponsive_flag xs w = replicate (length xs) False)"
proof (intro conjI allI impI)
  show "length (unresponsive_flag xs w) = length xs"
    by (rule unresponsive_flag_length)
next
  fix j assume "j < length xs"
  then show "unresponsive_flag xs w ! j \<longleftrightarrow>
      (\<exists>s. s \<le> j \<and> j < s + w \<and> s + w \<le> length xs \<and>
           (\<forall>k. s \<le> k \<and> k < s + w \<longrightarrow> xs ! k = xs ! j))"
    by (rule unresponsive_flag_window)
next
  assume "2 \<le> w \<and> u \<noteq> v"
  then show "unresponsive_flag (replicate w v @ [u]) w = replicate w True @ [False]"
    using unresponsive_flag_run_then_change [of w u v] by blast
next
  fix j
  assume b: "(pre = [] \<or> last pre \<noteq> v) \<and> (post = [] \<or> hd post \<noteq> v)"
    and j: "length pre \<le> j \<and> j < length pre + (w - 1)"
  show "\<not> unresponsive_flag (pre @ replicate (w - 1) v @ post) w ! j"
    using unresponsive_flag_short_run [OF refl, of pre v post j w] b j by blast
next
  assume "length xs < w"
  then show "unresponsive_flag xs w = replicate (length xs) False"
    by (rule unresponsive_flag_short)
qed

theorem unresponsive_flag_runs_witness:
  "2 \<le> (3::nat) \<and> Some (5::real) \<noteq> Some 4 \<and>
   unresponsive_flag [Some (4::real), Some 4, Some 4, Some 5] 3 = [True, True, True, False] \<and>
   (0::nat) < length [Some (4::real), Some 4] \<and> length [Some (4::real), Some 4] < (3::nat) \<and>
   unresponsive_flag [Some (4::real), Some 4] 3 = [False, False] \<and>
   last [Some (1::real)] \<noteq> Some 4 \<and> hd [Some (2::real)] \<noteq> Some 4 \<and>
   length [Some (1::real)] \<le> (1::nat) \<and> (1::nat) < length [Some (1::real)] + (3 - 1) \<and>
   \<not> unresponsive_flag [Some (1::real), Some 4, Some 4, Some 2] 3 ! 1"
proof -
  note t = unresponsive_flag_runs [of "[Some (4::real), Some 4]" 3 "Some 5" "Some 4"
      "[Some 1]" "[Some 2]"]
  have r: "replicate 3 (Some (4::real)) @ [Some 5] = [Some 4, Some 4, Some 4, Some 5]"
    "replicate 3 True @ [False] = [True, True, True, False]"
    "[Some (1::real)] @ replicate (3 - 1) (Some 4) @ [Some 2] = [Some 1, Some 4, Some 4, Some 2]"
    "replicate (length [Some (4::real), Some 4]) False = [False, False]"
    by (simp_all add: numeral_3_eq_3)
  from t have "2 \<le> (3::nat) \<and> Some (5::real) \<noteq> Some 4 \<longrightarrow>
      unresponsive_flag (replicate 3 (Some (4::real)) @ [Some 5]) 3 = replicate 3 True @ [False]"
    by blast
  then have a: "unresponsive_flag [Some (4::real), Some 4, Some 4, Some 5] 3 = [True, True, True, False]"
    unfolding r by simp
  from t have "length [Some (4::real), Some 4] < 3 \<longrightarrow>
      unresponsive_flag [Some (4::real), Some 4] 3 = replicate (length [Some (4::real), Some 4]) False"
    by blast
  then have b: "unresponsive_flag [Some (4::real), Some 4] 3 = [False, False]"
    unfolding r by simp
  from t have "([Some (1::real)] = [] \<or> last [Some (1::real)] \<noteq> Some 4) \<and>
      ([Some (2::real)] = [] \<or> hd [Some (2::real)] \<noteq> Some 4) \<longrightarrow>
      (\<forall>j. length [Some (1::real)] \<le> j \<and> j < length [Some (1::real)] + (3 - 1) \<longrightarrow>
         \<not> unresponsive_flag ([Some (1::real)] @ replicate (3 - 1) (Some 4) @ [Some 2]) 3 ! j)"
    by blast
  then have "\<forall>j. length [Some (1::real)] \<le> j \<and> j < length [Some (1::real)] + (3 - 1) \<longrightarrow>
         \<not> unresponsive_flag [Some (1::real), Some 4, Some 4, Some 2] 3 ! j"
    unfolding r by simp
  then have c: "\<not> unresponsive_flag [Some (1::real), Some 4, Some 4, Some 2] 3 ! 1"
    by simp
  from a b c show ?thesis by simp
qed

section \<open>The loop over turbines\<close>

lemma loc_assign_length: "length (loc_assign ls f df) = length df"
  by (simp add: loc_assign_def)

lemma loc_assign_nth:
  "i < length df \<Longrightarrow> loc_assign ls f df ! i = (if i \<in> set ls then f (df ! i) else df ! i)"
  by (simp add: loc_assign_def)

lemma turbine_labels_set:
  "set (turbine_labels t df) = {i. i < length df \<and> Wind_turbine_name (df ! i) = t}"
  by (auto simp: turbine_labels_def)

lemma turbine_labels_distinct: "distinct (turbine_labels t df)"
  by (simp add: turbine_labels_def)

lemma turbine_labels_nth:
  "k < length (turbine_labels t df) \<Longrightarrow>
   turbine_labels t df ! k < length df \<and> Wind_turbine_name (df ! (turbine_labels t df ! k)) = t"
  using turbine_labels_set [of t df] nth_mem [of k "turbine_labels t df"] by blast

lemma flagged_labels_subset: "i \<in> set (flagged_labels ls fl) \<Longrightarrow> i \<in> set ls"
  unfolding flagged_labels_def by (auto dest: set_zip_leftD)

lemma flagged_labels_iff:
  assumes d: "distinct ls" and l: "length fl = length ls" and k: "k < length ls"
  shows "ls ! k \<in> set (flagged_labels ls fl) \<longleftrightarrow> fl ! k"
proof
  assume "ls ! k \<in> set (flagged_labels ls fl)"
  then have "(ls ! k, True) \<in> set (zip ls fl)"
    unfolding flagged_labels_def by auto
  then obtain n where n: "n < length ls" "ls ! n = ls ! k" "fl ! n = True"
    using l by (auto simp: set_zip)
  from d n(1,2) k have "n = k" by (simp add: nth_eq_iff_index_eq)
  with n(3) show "fl ! k" by simp
next
  assume "fl ! k"
  with k l have "(ls ! k, True) \<in> set (zip ls fl)"
    by (auto simp: set_zip)
  then show "ls ! k \<in> set (flagged_labels ls fl)"
    unfolding flagged_labels_def by force
qed

lemma flag_turbine_length: "length (flag_turbine t df) = length df"
  by (simp add: flag_turbine_def Let_def loc_assign_length)

lemma flag_turbine_other:
  assumes i: "i < length df" and n: "Wind_turbine_name (df ! i) \<noteq> t"
  shows "flag_turbine t df ! i = df ! i"
proof -
  have notin: "i \<notin> set (turbine_labels t df)"
    using n by (simp add: turbine_labels_set)
  then have "\<And>fl. i \<notin> set (flagged_labels (turbine_labels t df) fl)"
    using flagged_labels_subset by blast
  then show ?thesis
    using i by (simp add: flag_turbine_def Let_def loc_assign_length loc_assign_nth)
qed

lemma va_flags_length: "length (va_flags t df) = length (turbine_labels t df)"
  by (simp add: va_flags_def unresponsive_flag_length)

lemma ot_flags_length: "length (ot_flags t df) = length (turbine_labels t df)"
  by (simp add: ot_flags_def unresponsive_flag_length va_flags_length)

lemma nan_cols_simps:
  "Ot_avg (nan_sensor_cols r) = None"
  "nan_Ot_avg (nan_sensor_cols r) = nan_sensor_cols r"
  "Wind_turbine_name (nan_sensor_cols r) = Wind_turbine_name r"
  "Wind_turbine_name (nan_Ot_avg r) = Wind_turbine_name r"
  by (simp_all add: nan_sensor_cols_def nan_Ot_avg_def)

lemma va_assign_at:
  assumes n: "n < length (turbine_labels t df)"
  shows "loc_assign (flagged_labels (turbine_labels t df) (va_flags t df)) nan_sensor_cols df
           ! (turbine_labels t df ! n) =
         (if va_flags t df ! n then nan_sensor_cols (df ! (turbine_labels t df ! n))
          else df ! (turbine_labels t df ! n))"
proof -
  have "turbine_labels t df ! n < length df"
    using turbine_labels_nth [OF n] by blast
  moreover have "turbine_labels t df ! n \<in> set (flagged_labels (turbine_labels t df) (va_flags t df))
      \<longleftrightarrow> va_flags t df ! n"
    by (rule flagged_labels_iff [OF turbine_labels_distinct va_flags_length n])
  ultimately show ?thesis by (simp add: loc_assign_nth)
qed

lemma ot_signal_after_va:
  "map (\<lambda>i. Ot_avg (loc_assign (flagged_labels (turbine_labels t df) (va_flags t df))
         nan_sensor_cols df ! i)) (turbine_labels t df) =
   map (\<lambda>(i, f). if f then None else Ot_avg (df ! i)) (zip (turbine_labels t df) (va_flags t df))"
proof (rule nth_equalityI)
  show "length (map (\<lambda>i. Ot_avg (loc_assign (flagged_labels (turbine_labels t df) (va_flags t df))
         nan_sensor_cols df ! i)) (turbine_labels t df)) =
      length (map (\<lambda>(i, f). if f then None else Ot_avg (df ! i))
         (zip (turbine_labels t df) (va_flags t df)))"
    by (simp add: va_flags_length)
next
  fix n
  assume "n < length (map (\<lambda>i. Ot_avg (loc_assign (flagged_labels (turbine_labels t df)
      (va_flags t df)) nan_sensor_cols df ! i)) (turbine_labels t df))"
  then have n: "n < length (turbine_labels t df)" by simp
  then show "map (\<lambda>i. Ot_avg (loc_assign (flagged_labels (turbine_labels t df) (va_flags t df))
         nan_sensor_cols df ! i)) (turbine_labels t df) ! n =
      map (\<lambda>(i, f). if f then None else Ot_avg (df ! i))
         (zip (turbine_labels t df) (va_flags t df)) ! n"
    by (simp add: va_assign_at [OF n] va_flags_length nan_cols_simps)
qed

lemma flag_turbine_unfold:
  "flag_turbine t df =
     loc_assign (flagged_labels (turbine_labels t df) (ot_flags t df)) nan_Ot_avg
       (loc_assign (flagged_labels (turbine_labels t df) (va_flags t df)) nan_sensor_cols df)"
  unfolding flag_turbine_def Let_def ot_flags_def
  by (simp only: ot_signal_after_va flip: va_flags_def)

lemma flag_turbine_at:
  assumes k: "k < length (turbine_labels t df)"
  shows "flag_turbine t df ! (turbine_labels t df ! k) =
     (if va_flags t df ! k then nan_sensor_cols (df ! (turbine_labels t df ! k))
      else if ot_flags t df ! k then nan_Ot_avg (df ! (turbine_labels t df ! k))
      else df ! (turbine_labels t df ! k))"
proof -
  have i: "turbine_labels t df ! k < length df"
    using turbine_labels_nth [OF k] by blast
  have ot: "turbine_labels t df ! k \<in> set (flagged_labels (turbine_labels t df) (ot_flags t df))
      \<longleftrightarrow> ot_flags t df ! k"
    by (rule flagged_labels_iff [OF turbine_labels_distinct ot_flags_length k])
  show ?thesis
    unfolding flag_turbine_unfold
    using i ot by (simp add: loc_assign_nth loc_assign_length va_assign_at [OF k] nan_cols_simps)
qed

lemma flag_turbine_name:
  assumes i: "i < length df"
  shows "Wind_turbine_name (flag_turbine t df ! i) = Wind_turbine_name (df ! i)"
proof (cases "Wind_turbine_name (df ! i) = t")
  case False
  with i show ?thesis by (simp add: flag_turbine_other)
next
  case True
  with i have "i \<in> set (turbine_labels t df)" by (simp add: turbine_labels_set)
  then obtain k where k: "k < length (turbine_labels t df)" "turbine_labels t df ! k = i"
    by (auto simp: in_set_conv_nth)
  from flag_turbine_at [OF k(1)] k(2) show ?thesis
    by (simp add: nan_cols_simps)
qed

lemma turbine_labels_cong:
  assumes "length df' = length df"
    and "\<forall>i < length df. Wind_turbine_name (df' ! i) = Wind_turbine_name (df ! i)"
  shows "turbine_labels t df' = turbine_labels t df"
  unfolding turbine_labels_def using assms by (auto intro: filter_cong)

lemma flags_cong:
  assumes l: "turbine_labels t df' = turbine_labels t df"
    and r: "\<forall>i \<in> set (turbine_labels t df). df' ! i = df ! i"
  shows "va_flags t df' = va_flags t df \<and> ot_flags t df' = ot_flags t df"
proof -
  have va: "va_flags t df' = va_flags t df"
    unfolding va_flags_def l using r by (simp cong: map_cong)
  have eq: "map (\<lambda>(i, f). if f then None else Ot_avg (df' ! i))
          (zip (turbine_labels t df) (va_flags t df)) =
        map (\<lambda>(i, f). if f then None else Ot_avg (df ! i))
          (zip (turbine_labels t df) (va_flags t df))"
  proof (rule map_cong [OF refl])
    fix p assume "p \<in> set (zip (turbine_labels t df) (va_flags t df))"
    then have "fst p \<in> set (turbine_labels t df)"
      using set_zip_leftD [of "fst p" "snd p"] by simp
    with r have "df' ! fst p = df ! fst p" by blast
    then show "(case p of (i, f) \<Rightarrow> if f then None else Ot_avg (df' ! i)) =
        (case p of (i, f) \<Rightarrow> if f then None else Ot_avg (df ! i))"
      by (cases p) simp
  qed
  have "ot_flags t df' = ot_flags t df"
    unfolding ot_flags_def l va eq by (rule refl)
  with va show ?thesis by simp
qed

lemma flag_turbine_cong:
  assumes len: "length df' = length df"
    and names: "\<forall>i < length df. Wind_turbine_name (df' ! i) = Wind_turbine_name (df ! i)"
    and rows: "\<forall>i < length df. Wind_turbine_name (df ! i) = t \<longrightarrow> df' ! i = df ! i"
    and i: "i < length df" "Wind_turbine_name (df ! i) = t"
  shows "flag_turbine t df' ! i = flag_turbine t df ! i"
proof -
  have l: "turbine_labels t df' = turbine_labels t df"
    by (rule turbine_labels_cong [OF len names])
  have r: "\<forall>i \<in> set (turbine_labels t df). df' ! i = df ! i"
    using rows by (simp add: turbine_labels_set)
  from flags_cong [OF l r] have f: "va_flags t df' = va_flags t df" "ot_flags t df' = ot_flags t df"
    by simp_all
  from i have "i \<in> set (turbine_labels t df)" by (simp add: turbine_labels_set)
  then obtain k where k: "k < length (turbine_labels t df)" "turbine_labels t df ! k = i"
    by (auto simp: in_set_conv_nth)
  from k(1) l have k': "k < length (turbine_labels t df')" by simp
  from rows i have e: "df' ! i = df ! i" by blast
  show ?thesis
    using flag_turbine_at [OF k(1)] flag_turbine_at [OF k'] 
    unfolding l f k(2) e by simp
qed

lemma fold_flag_turbine_length: "length (fold flag_turbine ts df) = length df"
  by (induction ts arbitrary: df) (simp_all add: flag_turbine_length)

lemma fold_flag_turbine_nth:
  assumes "distinct ts" "i < length df"
  shows "fold flag_turbine ts df ! i =
     (if Wind_turbine_name (df ! i) \<in> set ts then flag_turbine (Wind_turbine_name (df ! i)) df ! i
      else df ! i)"
  using assms
proof (induction ts arbitrary: df)
  case Nil
  show ?case by simp
next
  case (Cons t ts)
  let ?df' = "flag_turbine t df"
  let ?n = "Wind_turbine_name (df ! i)"
  have len: "length ?df' = length df" by (rule flag_turbine_length)
  have names: "\<forall>j < length df. Wind_turbine_name (?df' ! j) = Wind_turbine_name (df ! j)"
    by (simp add: flag_turbine_name)
  from Cons.prems have d: "distinct ts" and tn: "t \<notin> set ts" by simp_all
  from Cons.prems(2) len have i': "i < length ?df'" by simp
  have IH: "fold flag_turbine ts ?df' ! i =
     (if ?n \<in> set ts then flag_turbine ?n ?df' ! i else ?df' ! i)"
    using Cons.IH [OF d i'] names Cons.prems(2) by simp
  show ?case
  proof (cases "?n = t")
    case True
    with tn IH show ?thesis by simp
  next
    case False
    have other: "?df' ! i = df ! i"
      using flag_turbine_other [OF Cons.prems(2) False] .
    show ?thesis
    proof (cases "?n \<in> set ts")
      case True
      have rows: "\<forall>j < length df. Wind_turbine_name (df ! j) = ?n \<longrightarrow> ?df' ! j = df ! j"
        using False by (simp add: flag_turbine_other)
      have "flag_turbine ?n ?df' ! i = flag_turbine ?n df ! i"
        by (rule flag_turbine_cong [OF len names rows Cons.prems(2) refl])
      with True IH show ?thesis by simp
    next
      case F2: False
      with False IH other show ?thesis by simp
    qed
  qed
qed

lemma unique_distinct: "distinct (unique xs)"
  using keep_first_distinct [of "\<lambda>x. x" "[]" xs] by (simp add: unique_def)

lemma unique_set: "set (unique xs) = set xs"
  using keep_first_keys [of "\<lambda>x. x" "[]" xs] by (simp add: unique_def)

lemma flag_turbine_key:
  assumes i: "i < length df"
  shows "subset_key (flag_turbine t df ! i) = subset_key (df ! i)"
proof (cases "Wind_turbine_name (df ! i) = t")
  case False
  with i show ?thesis by (simp add: flag_turbine_other)
next
  case True
  with i have "i \<in> set (turbine_labels t df)" by (simp add: turbine_labels_set)
  then obtain k where k: "k < length (turbine_labels t df)" "turbine_labels t df ! k = i"
    by (auto simp: in_set_conv_nth)
  from flag_turbine_at [OF k(1)] k(2) show ?thesis
    by (simp add: subset_key_def nan_sensor_cols_def nan_Ot_avg_def)
qed

lemma flag_unresponsive_sensors_nth:
  assumes i: "i < length df"
  shows "flag_unresponsive_sensors df ! i = flag_turbine (Wind_turbine_name (df ! i)) df ! i"
proof -
  have "Wind_turbine_name (df ! i) \<in> set (unique (map Wind_turbine_name df))"
    using i by (simp add: unique_set)
  then show ?thesis
    unfolding flag_unresponsive_sensors_def
    using fold_flag_turbine_nth [OF unique_distinct i] by simp
qed

text \<open>
  C2, amended.  The loop keeps every row (same length, same timestamps and turbine
  names).  For every turbine and every position \<open>k\<close> of its rows: if the short-window
  detector (\<open>w = 3\<close>) on the vane angle marks \<open>k\<close>, the seven sensor columns pitch,
  power, wind speed, vane angle, ambient temperature, nacelle angle and wind direction
  of that row become missing; otherwise, if the long-window detector (\<open>w = 20\<close>) on the
  ambient temperature marks \<open>k\<close>, only the temperature of that row becomes missing;
  otherwise the row is unchanged.
\<close>

theorem flag_unresponsive_sensors_cells:
  "length (flag_unresponsive_sensors df) = length df \<and>
   map subset_key (flag_unresponsive_sensors df) = map subset_key df \<and>
   (\<forall>i < length df. i \<in> set (turbine_labels (Wind_turbine_name (df ! i)) df)) \<and>
   (\<forall>k < length (turbine_labels t_id df).
      flag_unresponsive_sensors df ! (turbine_labels t_id df ! k) =
        (if va_flags t_id df ! k
         then (df ! (turbine_labels t_id df ! k))\<lparr>Ba_avg := None, P_avg := None, Ws_avg := None,
                Va_avg := None, Ot_avg := None, Ya_avg := None, Wa_avg := None\<rparr>
         else if ot_flags t_id df ! k
         then (df ! (turbine_labels t_id df ! k))\<lparr>Ot_avg := None\<rparr>
         else df ! (turbine_labels t_id df ! k)))"
proof (intro conjI allI impI)
  show len: "length (flag_unresponsive_sensors df) = length df"
    by (simp add: flag_unresponsive_sensors_def fold_flag_turbine_length)
  show "map subset_key (flag_unresponsive_sensors df) = map subset_key df"
  proof (rule nth_equalityI)
    show "length (map subset_key (flag_unresponsive_sensors df)) = length (map subset_key df)"
      using len by simp
  next
    fix i assume "i < length (map subset_key (flag_unresponsive_sensors df))"
    with len have i: "i < length df" by simp
    with len show "map subset_key (flag_unresponsive_sensors df) ! i = map subset_key df ! i"
      by (simp add: flag_unresponsive_sensors_nth flag_turbine_key)
  qed
next
  fix i assume "i < length df"
  then show "i \<in> set (turbine_labels (Wind_turbine_name (df ! i)) df)"
    by (simp add: turbine_labels_set)
next
  fix k assume k: "k < length (turbine_labels t_id df)"
  from turbine_labels_nth [OF k]
  have i: "turbine_labels t_id df ! k < length df"
    and n: "Wind_turbine_name (df ! (turbine_labels t_id df ! k)) = t_id" by simp_all
  show "flag_unresponsive_sensors df ! (turbine_labels t_id df ! k) =
        (if va_flags t_id df ! k
         then (df ! (turbine_labels t_id df ! k))\<lparr>Ba_avg := None, P_avg := None, Ws_avg := None,
                Va_avg := None, Ot_avg := None, Ya_avg := None, Wa_avg := None\<rparr>
         else if ot_flags t_id df ! k
         then (df ! (turbine_labels t_id df ! k))\<lparr>Ot_avg := None\<rparr>
         else df ! (turbine_labels t_id df ! k))"
    unfolding flag_unresponsive_sensors_nth [OF i] n flag_turbine_at [OF k]
    by (simp only: nan_sensor_cols_def nan_Ot_avg_def)
qed

text \<open>
  C2, as stated, fails: the group invalidated by the vane-angle detector is not limited to
  pitch, power, wind speed, wind direction and vane angle.  On three rows of one turbine
  with a constant vane angle, the ambient temperature (which varies) and the nacelle
  angle become missing as well.
\<close>

theorem flag_unresponsive_sensors_counterexample:
  "map Ot_avg (flag_unresponsive_sensors
     [\<lparr>Date_time = 0, Wind_turbine_name = ''R80711'', Ba_avg = Some 1, P_avg = Some 2,
       Ws_avg = Some 3, Va_avg = Some 4, Ot_avg = Some 10, Ya_avg = Some 6, Wa_avg = Some 7\<rparr>,
      \<lparr>Date_time = 600, Wind_turbine_name = ''R80711'', Ba_avg = Some 1, P_avg = Some 2,
       Ws_avg = Some 3, Va_avg = Some 4, Ot_avg = Some 11, Ya_avg = Some 6, Wa_avg = Some 7\<rparr>,
      \<lparr>Date_time = 1200, Wind_turbine_name = ''R80711'', Ba_avg = Some 1, P_avg = Some 2,
       Ws_avg = Some 3, Va_avg = Some 4, Ot_avg = Some 12, Ya_avg = Some 6, Wa_avg = Some 7\<rparr>]) = [None, None, None] \<and>
   map Ya_avg (flag_unresponsive_sensors
     [\<lparr>Date_time = 0, Wind_turbine_name = ''R80711'', Ba_avg = Some 1, P_avg = Some 2,
       Ws_avg = Some 3, Va_avg = Some 4, Ot_avg = Some 10, Ya_avg = Some 6, Wa_avg = Some 7\<rparr>,
      \<lparr>Date_time = 600, Wind_turbine_name = ''R80711'', Ba_avg = Some 1, P_avg = Some 2,
       Ws_avg = Some 3, Va_avg = Some 4, Ot_avg = Some 11, Ya_avg = Some 6, Wa_avg = Some 7\<rparr>,
      \<lparr>Date_time = 1200, Wind_turbine_name = ''R80711'', Ba_avg = Some 1, P_avg = Some 2,
       Ws_avg = Some 3, Va_avg = Some 4, Ot_avg = Some 12, Ya_avg = Some 6, Wa_avg = Some 7\<rparr>]) = [None, None, None]"
  by code_simp

theorem flag_unresponsive_sensors_cells_witness:
  "(let stuck_vane =
       [\<lparr>Date_time = 0, Wind_turbine_name = ''R80711'', Ba_avg = Some 1, P_avg = Some 2,
         Ws_avg = Some 3, Va_avg = Some 4, Ot_avg = Some 10, Ya_avg = Some 6, Wa_avg = Some 7\<rparr>,
        \<lparr>Date_time = 0, Wind_turbine_name = ''R80721'', Ba_avg = Some 1, P_avg = Some 2,
         Ws_avg = Some 3, Va_avg = Some 4, Ot_avg = Some 10, Ya_avg = Some 6, Wa_avg = Some 7\<rparr>,
        \<lparr>Date_time = 600, Wind_turbine_name = ''R80711'', Ba_avg = Some 1, P_avg = Some 2,
         Ws_avg = Some 3, Va_avg = Some 4, Ot_avg = Some 11, Ya_avg = Some 6, Wa_avg = Some 7\<rparr>,
        \<lparr>Date_time = 1200, Wind_turbine_name = ''R80711'', Ba_avg = Some 1, P_avg = Some 2,
         Ws_avg = Some 3, Va_avg = Some 4, Ot_avg = Some 12, Ya_avg = Some 6, Wa_avg = Some 7\<rparr>,
        \<lparr>Date_time = 1800, Wind_turbine_name = ''R80711'', Ba_avg = Some 1, P_avg = Some 2,
         Ws_avg = Some 3, Va_avg = Some 5, Ot_avg = Some 13, Ya_avg = Some 6, Wa_avg = Some 7\<rparr>];
     stuck_temperature =
       map (\<lambda>n. \<lparr>Date_time = 600 * int n, Wind_turbine_name = ''R80711'', Ba_avg = Some 1,
         P_avg = Some 2, Ws_avg = Some 3, Va_avg = Some (real n), Ot_avg = Some 10,
         Ya_avg = Some 6, Wa_avg = Some 7\<rparr>) [0..<20]
    in (0::nat) < length (turbine_labels ''R80711'' stuck_vane) \<and>
       va_flags ''R80711'' stuck_vane ! 0 \<and>
       flag_unresponsive_sensors stuck_vane ! 0 =
         \<lparr>Date_time = 0, Wind_turbine_name = ''R80711'', Ba_avg = None, P_avg = None,
         Ws_avg = None, Va_avg = None, Ot_avg = None, Ya_avg = None, Wa_avg = None\<rparr> \<and>
       (5::nat) < length (turbine_labels ''R80711'' stuck_temperature) \<and>
       \<not> va_flags ''R80711'' stuck_temperature ! 5 \<and>
       ot_flags ''R80711'' stuck_temperature ! 5 \<and>
       flag_unresponsive_sensors stuck_temperature ! 5 =
         \<lparr>Date_time = 3000, Wind_turbine_name = ''R80711'', Ba_avg = Some 1, P_avg = Some 2,
         Ws_avg = Some 3, Va_avg = Some 5, Ot_avg = None, Ya_avg = Some 6, Wa_avg = Some 7\<rparr>)"
proof -
  let ?stuck_vane =
      "[\<lparr>Date_time = 0, Wind_turbine_name = ''R80711'', Ba_avg = Some 1, P_avg = Some 2,
         Ws_avg = Some 3, Va_avg = Some 4, Ot_avg = Some 10, Ya_avg = Some 6, Wa_avg = Some 7\<rparr>,
        \<lparr>Date_time = 0, Wind_turbine_name = ''R80721'', Ba_avg = Some 1, P_avg = Some 2,
         Ws_avg = Some 3, Va_avg = Some 4, Ot_avg = Some 10, Ya_avg = Some 6, Wa_avg = Some 7\<rparr>,
        \<lparr>Date_time = 600, Wind_turbine_name = ''R80711'', Ba_avg = Some 1, P_avg = Some 2,
         Ws_avg = Some 3, Va_avg = Some 4, Ot_avg = Some 11, Ya_avg = Some 6, Wa_avg = Some 7\<rparr>,
        \<lparr>Date_time = 1200, Wind_turbine_name = ''R80711'', Ba_avg = Some 1, P_avg = Some 2,
         Ws_avg = Some 3, Va_avg = Some 4, Ot_avg = Some 12, Ya_avg = Some 6, Wa_avg = Some 7\<rparr>,
        \<lparr>Date_time = 1800, Wind_turbine_name = ''R80711'', Ba_avg = Some 1, P_avg = Some 2,
         Ws_avg = Some 3, Va_avg = Some 5, Ot_avg = Some 13, Ya_avg = Some 6, Wa_avg = Some 7\<rparr>]"
  let ?stuck_temperature =
      "map (\<lambda>n. \<lparr>Date_time = 600 * int n, Wind_turbine_name = ''R80711'', Ba_avg = Some 1,
         P_avg = Some 2, Ws_avg = Some 3, Va_avg = Some (real n), Ot_avg = Some 10,
         Ya_avg = Some 6, Wa_avg = Some 7\<rparr>) [0..<20]"
  have w: "turbine_labels ''R80711'' ?stuck_vane = [0, 2, 3, 4]"
    "va_flags ''R80711'' ?stuck_vane = [True, True, True, False]"
    by code_simp+
  have l: "turbine_labels ''R80711'' ?stuck_temperature ! 5 = 5"
    "length (turbine_labels ''R80711'' ?stuck_temperature) = 20"
    "va_flags ''R80711'' ?stuck_temperature ! 5 = False"
    "ot_flags ''R80711'' ?stuck_temperature ! 5 = True"
    "?stuck_temperature ! 5 =
       \<lparr>Date_time = 3000, Wind_turbine_name = ''R80711'', Ba_avg = Some 1, P_avg = Some 2,
         Ws_avg = Some 3, Va_avg = Some 5, Ot_avg = Some 10, Ya_avg = Some 6, Wa_avg = Some 7\<rparr>"
    by code_simp+
  have a: "flag_unresponsive_sensors ?stuck_vane ! 0 =
       \<lparr>Date_time = 0, Wind_turbine_name = ''R80711'', Ba_avg = None, P_avg = None,
         Ws_avg = None, Va_avg = None, Ot_avg = None, Ya_avg = None, Wa_avg = None\<rparr>"
    using flag_unresponsive_sensors_cells
      [of ?stuck_vane "''R80711''",
       THEN conjunct2, THEN conjunct2, THEN conjunct2, rule_format, of 0]
    unfolding w by simp
  have b: "flag_unresponsive_sensors ?stuck_temperature ! 5 =
       \<lparr>Date_time = 3000, Wind_turbine_name = ''R80711'', Ba_avg = Some 1, P_avg = Some 2,
         Ws_avg = Some 3, Va_avg = Some 5, Ot_avg = None, Ya_avg = Some 6, Wa_avg = Some 7\<rparr>"
    using flag_unresponsive_sensors_cells
      [of ?stuck_temperature "''R80711''",
       THEN conjunct2, THEN conjunct2, THEN conjunct2, rule_format, of 5]
    unfolding l by simp
  show ?thesis
    unfolding Let_def a b unfolding w l by simp
qed

section \<open>Archive extraction\<close>

lemma makedirs_step_mono:
  "q \<in> dom fs \<Longrightarrow>
   q \<in> dom (fold (\<lambda>p fs'. case fs' p of None \<Rightarrow> fs'(p \<mapsto> Directory) | Some n \<Rightarrow> fs') ps fs)"
proof (induction ps arbitrary: fs)
  case Nil
  then show ?case by simp
next
  case (Cons a ps)
  from Cons.prems have "q \<in> dom (case fs a of None \<Rightarrow> fs(a \<mapsto> Directory) | Some n \<Rightarrow> fs)"
    by (cases "fs a") auto
  from Cons.IH [OF this] show ?case by simp
qed

lemma makedirs_step_creates:
  "q \<in> set ps \<Longrightarrow>
   q \<in> dom (fold (\<lambda>p fs'. case fs' p of None \<Rightarrow> fs'(p \<mapsto> Directory) | Some n \<Rightarrow> fs') ps fs)"
proof (induction ps arbitrary: fs)
  case Nil
  then show ?case by simp
next
  case (Cons a ps)
  show ?case
  proof (cases "q = a")
    case True
    have "q \<in> dom (case fs a of None \<Rightarrow> fs(a \<mapsto> Directory) | Some n \<Rightarrow> fs)"
      using True by (cases "fs a") auto
    from makedirs_step_mono [OF this, of ps] show ?thesis by simp
  next
    case False
    with Cons.prems have "q \<in> set ps" by simp
    from Cons.IH [OF this] show ?thesis by simp
  qed
qed

lemma extract_member_mono: "q \<in> dom fs \<Longrightarrow> q \<in> dom (extract_member dir m fs)"
  unfolding extract_member_def Let_def makedirs_def
  using makedirs_step_mono [of q fs] by simp

lemma extract_member_creates_dir:
  assumes "dir \<noteq> []"
  shows "dir \<in> dom (extract_member dir m fs)"
proof (cases "fst m = []")
  case True
  then show ?thesis by (simp add: extract_member_def)
next
  case False
  then have b: "butlast (dir @ fst m) = dir @ butlast (fst m)"
    by (simp add: butlast_append)
  have "prefix dir (dir @ butlast (fst m))" by simp
  then have "dir \<in> set (prefixes (dir @ butlast (fst m)))" by simp
  moreover have "prefixes (dir @ butlast (fst m)) = [] # tl (prefixes (dir @ butlast (fst m)))"
    by (cases "dir @ butlast (fst m)") simp_all
  ultimately have "dir \<in> set (tl (prefixes (dir @ butlast (fst m))))"
    using assms by (metis set_ConsD)
  from makedirs_step_creates [OF this]
  have "dir \<in> dom (makedirs fs (dir @ butlast (fst m)))"
    by (simp add: makedirs_def)
  then show ?thesis
    by (simp add: extract_member_def Let_def b)
qed

lemma extractall_mono: "q \<in> dom fs \<Longrightarrow> q \<in> dom (extractall ms fs dir)"
  unfolding extractall_def
proof (induction ms arbitrary: fs)
  case Nil
  then show ?case by simp
next
  case (Cons m ms)
  from Cons.IH [OF extract_member_mono [OF Cons.prems]] show ?case by simp
qed

lemma extractall_creates_dir:
  assumes "dir \<noteq> []" "ms \<noteq> []"
  shows "dir \<in> dom (extractall ms fs dir)"
proof -
  from assms(2) obtain m ms' where ms: "ms = m # ms'" by (cases ms) auto
  have "dir \<in> dom (extractall ms' (extract_member dir m fs) dir)"
    by (rule extractall_mono [OF extract_member_creates_dir [OF assms(1)]])
  then show ?thesis by (simp add: ms extractall_def)
qed

lemma with_suffix_nonempty: "with_suffix p sfx = Inr archive \<Longrightarrow> p \<noteq> []"
  by (auto simp: with_suffix_def split: if_splits)

lemma extract_data_exists: "p \<in> dom fs \<Longrightarrow> extract_data fs p = Inr fs"
  by (auto simp: extract_data_def)

lemma extract_data_changes:
  assumes "extract_data fs p = Inr fs'" "fs' \<noteq> fs"
  shows "p \<notin> dom fs \<and> (\<exists>archive zf. with_suffix p ''.zip'' = Inr archive \<and>
            ZipFile fs archive = Inr zf \<and> fs' = extractall zf fs p)"
  using assms by (auto simp: extract_data_def split: if_splits sum.splits)

lemma extract_data_idem:
  assumes "extract_data fs p = Inr fs'"
  shows "extract_data fs' p = Inr fs'"
proof (cases "fs' = fs")
  case True
  with assms show ?thesis by simp
next
  case False
  from extract_data_changes [OF assms False] obtain archive zf where
    x: "with_suffix p ''.zip'' = Inr archive" "ZipFile fs archive = Inr zf"
       "fs' = extractall zf fs p" by blast
  from x(3) False have "zf \<noteq> []" by (auto simp: extractall_def)
  from extractall_creates_dir [OF with_suffix_nonempty [OF x(1)] this] x(3)
  have "p \<in> dom fs'" by simp
  then show ?thesis by (rule extract_data_exists)
qed

text \<open>
  C9.  If the directory exists, the extraction step returns the file system unchanged.
  The file system changes only when the directory is absent, and then by extracting the
  archive beside it.  Running the step a second time changes nothing.
\<close>

theorem extract_data_idempotent:
  "(p \<in> dom fs \<longrightarrow> extract_data fs p = Inr fs) \<and>
   (extract_data fs p = Inr fs' \<and> fs' \<noteq> fs \<longrightarrow>
      p \<notin> dom fs \<and> (\<exists>archive zf. with_suffix p ''.zip'' = Inr archive \<and>
            ZipFile fs archive = Inr zf \<and> fs' = extractall zf fs p)) \<and>
   (extract_data fs p = Inr fs' \<longrightarrow> extract_data fs' p = Inr fs')"
  using extract_data_exists [of p fs] extract_data_changes [of fs p fs'] extract_data_idem [of fs p fs']
  by blast

theorem extract_data_idempotent_witness:
  "(let p = [''data'', ''la_haute_borne''];
        extracted = [[''data'', ''la_haute_borne''] \<mapsto> Directory];
        archived = [[''data'', ''la_haute_borne.zip''] \<mapsto> Zip_archive [([''scada.csv''], ''x'')]];
        after =
          [[''data'', ''la_haute_borne.zip''] \<mapsto> Zip_archive [([''scada.csv''], ''x'')],
        [''data''] \<mapsto> Directory,
        [''data'', ''la_haute_borne''] \<mapsto> Directory,
        [''data'', ''la_haute_borne'', ''scada.csv''] \<mapsto> Regular_file ''x'']
    in p \<in> dom extracted \<and>
       extract_data extracted p = Inr extracted \<and>
       p \<notin> dom archived \<and>
       extract_data archived p = Inr after \<and>
       after \<noteq> archived \<and>
       extract_data after p = Inr after)"
proof -
  let ?p = "[''data'', ''la_haute_borne'']"
  let ?extracted = "[[''data'', ''la_haute_borne''] \<mapsto> Directory]"
  let ?archived = "[[''data'', ''la_haute_borne.zip''] \<mapsto> Zip_archive [([''scada.csv''], ''x'')]]"
  let ?after =
     "[[''data'', ''la_haute_borne.zip''] \<mapsto> Zip_archive [([''scada.csv''], ''x'')],
        [''data''] \<mapsto> Directory,
        [''data'', ''la_haute_borne''] \<mapsto> Directory,
        [''data'', ''la_haute_borne'', ''scada.csv''] \<mapsto> Regular_file ''x'']"
  have a: "extract_data ?archived ?p = Inr ?after"
    by (simp add: extract_data_def with_suffix_def path_suffix_def ZipFile_def extractall_def
        extract_member_def makedirs_def)
  have b: "?after \<noteq> ?archived"
  proof
    assume "?after = ?archived"
    then have "?after ?p = ?archived ?p"
      by (rule fun_cong)
    then show False by simp
  qed
  have c: "?p \<in> dom ?extracted"
    by simp
  from extract_data_idempotent [of ?p ?extracted] c
  have d: "extract_data ?extracted ?p = Inr ?extracted"
    by blast
  from extract_data_idempotent [of ?p ?archived ?after] a b
  have e: "?p \<notin> dom ?archived" and f: "extract_data ?after ?p = Inr ?after"
    by blast+
  show ?thesis
    unfolding Let_def
    by (intro conjI) (rule a b c d e f)+
qed

section \<open>Reanalysis products\<close>

text \<open>
  The ERA5 path produces a regular hourly index from the first to the last timestamp,
  and the rows it inserts carry missing values only.
\<close>

lemma load_era5_regular:
  assumes ne: "rows \<noteq> []" and d: "distinct (map datetime rows)"
  shows "\<exists>out. load_era5 bearing rows = Inr out \<and>
     map datetime out =
       date_range (Min (set (map datetime rows))) (Max (set (map datetime rows))) 3600 \<and>
     (\<forall>r \<in> set out. datetime r \<notin> set (map datetime rows) \<longrightarrow>
        u_wind r = None \<and> v_wind r = None \<and> winddirection_deg r = None)"
proof -
  let ?df = "map (\<lambda>r. (datetime r, r)) rows"
  let ?dti = "date_range (Min (set (map datetime rows))) (Max (set (map datetime rows))) 3600"
  let ?f = "\<lambda>t. add_winddirection bearing
                 (case map_of ?df t of
                    None \<Rightarrow> \<lparr>datetime = t, u_wind = None, v_wind = None\<rparr>
                  | Some r \<Rightarrow> r\<lparr>datetime := t\<rparr>)"
  have fst: "map fst ?df = map datetime rows" by (simp add: comp_def)
  have out: "load_era5 bearing rows = Inr (map ?f ?dti)"
    using ne d by (simp add: load_era5_def asfreq_def Let_def fst comp_def)
  have dt: "\<And>t. datetime (?f t) = t"
    by (simp add: add_winddirection_def reanalysis_row.defs split: option.splits)
  have idx: "map datetime (map ?f ?dti) = ?dti"
    by (simp add: comp_def dt)
  have nulls: "\<forall>r \<in> set (map ?f ?dti). datetime r \<notin> set (map datetime rows) \<longrightarrow>
        u_wind r = None \<and> v_wind r = None \<and> winddirection_deg r = None"
  proof (intro ballI impI)
    fix r assume r: "r \<in> set (map ?f ?dti)" and n: "datetime r \<notin> set (map datetime rows)"
    from r obtain t where t: "r = ?f t" by auto
    with dt [of t] n have "t \<notin> fst ` set ?df" by (simp add: image_comp comp_def)
    then have "map_of ?df t = None" by (simp only: map_of_eq_None_iff not_False_eq_True)
    with t show "u_wind r = None \<and> v_wind r = None \<and> winddirection_deg r = None"
      by (simp add: add_winddirection_def reanalysis_row.defs compute_wind_direction_def)
  qed
  from out idx nulls show ?thesis by blast
qed

text \<open>
  C4 at a MERRA2 stream with rows for the hours 0, 1 and 5: the MERRA2 path returns the
  three rows, without rows for the hours 2, 3 and 4, while the ERA5 path on the same rows
  returns six rows, those of the missing hours with missing values.
\<close>

theorem load_merra2_keeps_gap:
  "map datetime (load_merra2 bearing
     [\<lparr>datetime = 0, u_wind = Some 1, v_wind = Some 2\<rparr>,
      \<lparr>datetime = 3600, u_wind = Some 1, v_wind = Some 2\<rparr>,
      \<lparr>datetime = 18000, u_wind = Some 1, v_wind = Some 2\<rparr>]) = [0, 3600, 18000] \<and>
   map_sum id (map datetime) (load_era5 bearing
     [\<lparr>datetime = 0, u_wind = Some 1, v_wind = Some 2\<rparr>,
      \<lparr>datetime = 3600, u_wind = Some 1, v_wind = Some 2\<rparr>,
      \<lparr>datetime = 18000, u_wind = Some 1, v_wind = Some 2\<rparr>]) = Inr [0, 3600, 7200, 10800, 14400, 18000] \<and>
   map_sum id (map u_wind) (load_era5 bearing
     [\<lparr>datetime = 0, u_wind = Some 1, v_wind = Some 2\<rparr>,
      \<lparr>datetime = 3600, u_wind = Some 1, v_wind = Some 2\<rparr>,
      \<lparr>datetime = 18000, u_wind = Some 1, v_wind = Some 2\<rparr>]) = Inr [Some 1, Some 1, None, None, None, Some 1]"
  by code_simp

section \<open>Failures before the validator\<close>

lemma load_era5_duplicates:
  "\<not> distinct (map datetime rows) \<Longrightarrow> load_era5 bearing rows = Inl ValueError"
  by (auto simp: load_era5_def asfreq_def Let_def comp_def)

text \<open>
  C8 at an ERA5 stream with two rows for the hour 0 and one for the hour 1: the ERA5 path
  (lines 97-105, inside \<^verbatim>\<open>load_plant_data\<close>, which catches nothing) raises
  \<^verbatim>\<open>ValueError\<close>, so the run ends before \<^verbatim>\<open>PlantData\<close> is called on line 112.  The
  SCADA path removes rows with a repeated key first (line 44): of two SCADA rows with the
  same timestamp and turbine, the first is kept.
\<close>

theorem load_era5_duplicate_timestamp_aborts:
  "load_era5 bearing
     [\<lparr>datetime = 0, u_wind = Some 1, v_wind = Some 2\<rparr>,
      \<lparr>datetime = 0, u_wind = Some 3, v_wind = Some 4\<rparr>,
      \<lparr>datetime = 3600, u_wind = Some 1, v_wind = Some 2\<rparr>] = Inl ValueError \<and>
   drop_duplicates
     [\<lparr>Date_time = 0, Wind_turbine_name = ''R80711'', Ba_avg = Some 1, P_avg = Some 2,
       Ws_avg = Some 3, Va_avg = Some 4, Ot_avg = Some 10, Ya_avg = Some 6, Wa_avg = Some 7\<rparr>,
      \<lparr>Date_time = 0, Wind_turbine_name = ''R80711'', Ba_avg = Some 1, P_avg = Some 5,
       Ws_avg = Some 3, Va_avg = Some 4, Ot_avg = Some 10, Ya_avg = Some 6, Wa_avg = Some 7\<rparr>] =
     [\<lparr>Date_time = 0, Wind_turbine_name = ''R80711'', Ba_avg = Some 1, P_avg = Some 2,
       Ws_avg = Some 3, Va_avg = Some 4, Ot_avg = Some 10, Ya_avg = Some 6, Wa_avg = Some 7\<rparr>]"
proof -
  have "\<not> distinct (map datetime
     [\<lparr>datetime = 0, u_wind = Some 1, v_wind = Some 2\<rparr>,
      \<lparr>datetime = 0, u_wind = Some 3, v_wind = Some 4\<rparr>,
      \<lparr>datetime = 3600, u_wind = Some 1, v_wind = Some 2\<rparr>])"
    by simp
  then have "load_era5 bearing
     [\<lparr>datetime = 0, u_wind = Some 1, v_wind = Some 2\<rparr>,
      \<lparr>datetime = 0, u_wind = Some 3, v_wind = Some 4\<rparr>,
      \<lparr>datetime = 3600, u_wind = Some 1, v_wind = Some 2\<rparr>] = Inl ValueError"
    by (rule load_era5_duplicates)
  moreover have "drop_duplicates
     [\<lparr>Date_time = 0, Wind_turbine_name = ''R80711'', Ba_avg = Some 1, P_avg = Some 2,
       Ws_avg = Some 3, Va_avg = Some 4, Ot_avg = Some 10, Ya_avg = Some 6, Wa_avg = Some 7\<rparr>,
      \<lparr>Date_time = 0, Wind_turbine_name = ''R80711'', Ba_avg = Some 1, P_avg = Some 5,
       Ws_avg = Some 3, Va_avg = Some 4, Ot_avg = Some 10, Ya_avg = Some 6, Wa_avg = Some 7\<rparr>] =
     [\<lparr>Date_time = 0, Wind_turbine_name = ''R80711'', Ba_avg = Some 1, P_avg = Some 2,
       Ws_avg = Some 3, Va_avg = Some 4, Ot_avg = Some 10, Ya_avg = Some 6, Wa_avg = Some 7\<rparr>]"
    by (simp add: drop_duplicates_def subset_key_def)
  ultimately show ?thesis by (rule conjI)
qed

end
